theory Spec2Isabelle
  imports Complex_Main "HOL-Library.Word"
begin

unbundle bit_operations_syntax

section \<open>Machine integers\<close>

text \<open>
  The rendering utilities compute with \<open>u8\<close>, \<open>u32\<close> and \<open>u64\<close>: unsigned machine
  integers whose arithmetic wraps around.  They are words here; \<open>unat\<close> reads the
  mathematical value.
\<close>

type_synonym u8 = "8 word"
type_synonym u32 = "32 word"
type_synonym u64 = "64 word"

lemma unat_u32_less: "unat (x::u32) < 2 ^ 32"
  using unsigned_less [of x, where 'a = nat] by simp

lemma unat_and_fff: "unat ((c::u32) AND 0xfff) = unat c mod 4096"
proof -
  have "(0xfff::u32) = mask 12"
    by (simp add: mask_eq_decr_exp)
  then have "c AND 0xfff = take_bit 12 c"
    by (simp only: take_bit_eq_mask)
  moreover have "unat (take_bit 12 c) = unat c mod 4096"
    by (simp add: take_bit_eq_mod unat_mod)
  ultimately show ?thesis by simp
qed

lemma unat_drop12: "unat (drop_bit 12 (c::u32)) = unat c div 4096"
  by (simp add: drop_bit_eq_div unat_div)

lemma unat_push12: "unat (push_bit 12 (c::u32)) = (unat c * 4096) mod 2 ^ 32"
  by (simp add: push_bit_eq_mult unat_word_ariths)

lemma unat_mult_small: "unat a * unat b < 2 ^ 32 \<Longrightarrow> unat ((a::u32) * b) = unat a * unat b"
  using unat_mult_lem [of a b] by simp

lemma unat_add_small: "unat a + unat b < 2 ^ 32 \<Longrightarrow> unat ((a::u32) + b) = unat a + unat b"
  using unat_add_lem [of a b] by simp

lemma unat_cell_rest: "unat ((0x1000::u32) - (c AND 0xfff)) = 4096 - unat c mod 4096"
proof -
  have "unat (c AND 0xfff) \<le> unat (0x1000::u32)"
    by (simp add: unat_and_fff)
  then have "c AND 0xfff \<le> 0x1000"
    by (simp only: word_le_nat_alt)
  then have "unat ((0x1000::u32) - (c AND 0xfff)) = unat (0x1000::u32) - unat (c AND 0xfff)"
    by (rule unat_sub)
  then show ?thesis
    by (simp add: unat_and_fff)
qed

text \<open>
  The step of both accumulation loops of the weighted-average sampler: the distance
  from the current position to the next 4096-unit cell boundary, clamped to the amount
  remaining.
\<close>

lemma unat_chunk:
  "unat (if r < (0x1000::u32) - (c AND 0xfff) then r else 0x1000 - (c AND 0xfff))
     = min (4096 - unat c mod 4096) (unat r)"
  by (auto simp: word_less_nat_alt unat_cell_rest)

lemma chunk_le:
  "(if r < (0x1000::u32) - (c AND 0xfff) then r else 0x1000 - (c AND 0xfff)) \<le> r"
  by (auto simp: word_le_nat_alt word_less_nat_alt)

lemma unat_remaining:
  "unat (r - (if r < (0x1000::u32) - (c AND 0xfff) then r else 0x1000 - (c AND 0xfff)))
     = unat r - min (4096 - unat c mod 4096) (unat r)"
  using unat_sub [OF chunk_le [of r c]] by (simp only: unat_chunk)

lemma remaining_decreases:
  assumes "r \<noteq> (0::u32)"
  shows "unat (r - (if r < 0x1000 - (c AND 0xfff) then r else 0x1000 - (c AND 0xfff))) < unat r"
proof -
  have "0 < unat r"
    using assms by (simp add: unat_gt_0)
  moreover have "0 < 4096 - unat c mod 4096"
    by simp
  ultimately show ?thesis
    by (simp only: unat_remaining)
qed

lemma remaining_decreases_full:
  "r \<noteq> (0::u32) \<Longrightarrow> \<not> r < 0x1000 - (c AND 0xfff)
     \<Longrightarrow> unat (r - (0x1000 - (c AND 0xfff))) < unat r"
  using remaining_decreases [of r c] by simp

section \<open>Weighted-average sampler: the cells visited for one destination pixel\<close>

text \<open>
  The two accumulation loops of \<open>resample_argb_bitmap_average\<close>.  For one destination
  pixel the outer loop walks \<open>cury\<close> from \<open>starty\<close> while \<open>yremaining\<close> is nonzero, and for
  each of its steps the inner loop walks \<open>curx\<close> from \<open>startx\<close> while \<open>xremaining\<close> is
  nonzero.  Every pass through the inner body is recorded as \<open>(cury, curx, factor)\<close>, in
  the order of the visits; the pixel fetched there is
  \<open>source[(cury >> 12) * srowpixels + (curx >> 12)]\<close> and it enters the four sums with
  the weight \<open>factor\<close>.
\<close>

function average_xloop :: "u32 \<Rightarrow> u32 \<Rightarrow> u32 \<Rightarrow> u32 \<Rightarrow> (u32 \<times> u32 \<times> u32) list" where
  "average_xloop cury ychunk curx xremaining =
     (if xremaining = 0 then []
      else
        let xchunk0 = 0x1000 - (curx AND 0xfff);
            xchunk = (if xchunk0 > xremaining then xremaining else xchunk0);
            xremaining' = xremaining - xchunk;
            factor = xchunk * ychunk
        in (cury, curx, factor) # average_xloop cury ychunk (curx + xchunk) xremaining')"
  by pat_completeness auto
termination
  by (relation "measure (\<lambda>(cury, ychunk, curx, xremaining). unat xremaining)")
    (auto simp: remaining_decreases_full unat_gt_0)

function average_yloop :: "u32 \<Rightarrow> u32 \<Rightarrow> u32 \<Rightarrow> u32 \<Rightarrow> (u32 \<times> u32 \<times> u32) list" where
  "average_yloop startx dx cury yremaining =
     (if yremaining = 0 then []
      else
        let ychunk0 = 0x1000 - (cury AND 0xfff);
            ychunk = (if ychunk0 > yremaining then yremaining else ychunk0);
            yremaining' = yremaining - ychunk
        in average_xloop cury ychunk startx dx
             @ average_yloop startx dx (cury + ychunk) yremaining')"
  by pat_completeness auto
termination
  by (relation "measure (\<lambda>(startx, dx, cury, yremaining). unat yremaining)")
    (auto simp: remaining_decreases_full unat_gt_0)

text \<open>
  The cells of destination pixel \<open>(x, y)\<close>: \<open>starty = y * dy\<close>, \<open>startx = x * dx\<close>,
  \<open>yremaining = dy\<close>, \<open>xremaining = dx\<close>.
\<close>

definition average_cells :: "u32 \<Rightarrow> u32 \<Rightarrow> u32 \<Rightarrow> u32 \<Rightarrow> (u32 \<times> u32 \<times> u32) list" where
  "average_cells dx dy x y = average_yloop (x * dx) dx (y * dy) dy"

declare average_xloop.simps [simp del] average_yloop.simps [simp del]

lemma average_xloop_unfold:
  "xremaining \<noteq> 0 \<Longrightarrow>
   xchunk = (if xremaining < 0x1000 - (curx AND 0xfff) then xremaining else 0x1000 - (curx AND 0xfff)) \<Longrightarrow>
   average_xloop cury ychunk curx xremaining =
     (cury, curx, xchunk * ychunk) # average_xloop cury ychunk (curx + xchunk) (xremaining - xchunk)"
  by (subst average_xloop.simps) (simp add: Let_def)

lemma average_yloop_unfold:
  "yremaining \<noteq> 0 \<Longrightarrow>
   ychunk = (if yremaining < 0x1000 - (cury AND 0xfff) then yremaining else 0x1000 - (cury AND 0xfff)) \<Longrightarrow>
   average_yloop startx dx cury yremaining =
     average_xloop cury ychunk startx dx @ average_yloop startx dx (cury + ychunk) (yremaining - ychunk)"
  by (subst average_yloop.simps) (simp add: Let_def)

lemma mult_4096_less: "a \<le> 4096 \<Longrightarrow> b \<le> 4096 \<Longrightarrow> a * b < (2::nat) ^ 32"
proof -
  assume "a \<le> 4096" "b \<le> 4096"
  then have "a * b \<le> 4096 * 4096" by (rule mult_le_mono)
  then show ?thesis by simp
qed

lemma average_xloop_sum:
  "unat ychunk \<le> 4096 \<Longrightarrow>
   (\<Sum>c\<leftarrow>average_xloop cury ychunk curx xremaining. unat (snd (snd c))) = unat xremaining * unat ychunk"
proof (induction cury ychunk curx xremaining rule: average_xloop.induct)
  case (1 cury ychunk curx xremaining)
  show ?case
  proof (cases "xremaining = 0")
    case True
    then show ?thesis by (simp add: average_xloop.simps)
  next
    case False
    define xchunk where
      "xchunk = (if xremaining < 0x1000 - (curx AND 0xfff) then xremaining else 0x1000 - (curx AND 0xfff))"
    have c: "unat xchunk = min (4096 - unat curx mod 4096) (unat xremaining)"
      unfolding xchunk_def by (rule unat_chunk)
    have r: "unat (xremaining - xchunk) = unat xremaining - unat xchunk"
      unfolding xchunk_def by (rule unat_sub [OF chunk_le])
    have f: "unat (xchunk * ychunk) = unat xchunk * unat ychunk"
      by (rule unat_mult_small, rule mult_4096_less) (use c "1.prems" in simp_all)
    have IH: "(\<Sum>c\<leftarrow>average_xloop cury ychunk (curx + xchunk) (xremaining - xchunk). unat (snd (snd c)))
        = unat (xremaining - xchunk) * unat ychunk"
      using "1.IH" [OF False refl xchunk_def refl refl "1.prems"] .
    have "unat xchunk \<le> unat xremaining" using c by simp
    then have "unat xchunk * unat ychunk + (unat xremaining - unat xchunk) * unat ychunk
        = unat xremaining * unat ychunk"
      by (metis add_mult_distrib le_add_diff_inverse)
    then show ?thesis
      by (simp add: average_xloop_unfold [OF False xchunk_def] IH r f)
  qed
qed

lemma average_yloop_sum:
  "(\<Sum>c\<leftarrow>average_yloop startx dx cury yremaining. unat (snd (snd c))) = unat dx * unat yremaining"
proof (induction startx dx cury yremaining rule: average_yloop.induct)
  case (1 startx dx cury yremaining)
  show ?case
  proof (cases "yremaining = 0")
    case True
    then show ?thesis by (simp add: average_yloop.simps)
  next
    case False
    define ychunk where
      "ychunk = (if yremaining < 0x1000 - (cury AND 0xfff) then yremaining else 0x1000 - (cury AND 0xfff))"
    have c: "unat ychunk = min (4096 - unat cury mod 4096) (unat yremaining)"
      unfolding ychunk_def by (rule unat_chunk)
    have r: "unat (yremaining - ychunk) = unat yremaining - unat ychunk"
      unfolding ychunk_def by (rule unat_sub [OF chunk_le])
    have IH: "(\<Sum>c\<leftarrow>average_yloop startx dx (cury + ychunk) (yremaining - ychunk). unat (snd (snd c)))
        = unat dx * unat (yremaining - ychunk)"
      using "1.IH" [OF False refl ychunk_def refl] .
    have le: "unat ychunk \<le> 4096" using c by simp
    have "unat ychunk \<le> unat yremaining" using c by simp
    then have "unat dx * unat ychunk + unat dx * (unat yremaining - unat ychunk)
        = unat dx * unat yremaining"
      by (metis add_mult_distrib2 le_add_diff_inverse)
    then show ?thesis
      by (simp add: average_yloop_unfold [OF False ychunk_def] IH r average_xloop_sum [OF le])
  qed
qed

text \<open>
  Claim C3.  In the weighted-average sampler, for every destination pixel \<open>(x, y)\<close> and
  all steps \<open>dx\<close>, \<open>dy\<close>, the contribution factors \<open>xchunk * ychunk\<close> of the visited
  source cells add up to \<open>dx * dy\<close> exactly, as natural numbers: no factor wraps around
  in its 32 bits, and the clamped chunks of each axis add up to the step of that axis.
\<close>

theorem average_area_conserved:
  "(\<Sum>(cury, curx, factor)\<leftarrow>average_cells dx dy x y. unat factor) = unat dx * unat dy"
  using average_yloop_sum [of "x * dx" dx "y * dy" dy]
  by (simp add: average_cells_def case_prod_unfold)

lemma average_xloop_visits:
  "unat curx + unat xremaining < 2 ^ 32 \<Longrightarrow> (cy, cx, f) \<in> set (average_xloop cury ychunk curx xremaining)
    \<Longrightarrow> cy = cury \<and> unat cx < unat curx + unat xremaining"
proof (induction cury ychunk curx xremaining rule: average_xloop.induct)
  case (1 cury ychunk curx xremaining)
  show ?case
  proof (cases "xremaining = 0")
    case True
    with "1.prems" show ?thesis by (simp add: average_xloop.simps)
  next
    case False
    define xchunk where
      "xchunk = (if xremaining < 0x1000 - (curx AND 0xfff) then xremaining else 0x1000 - (curx AND 0xfff))"
    have c: "unat xchunk = min (4096 - unat curx mod 4096) (unat xremaining)"
      unfolding xchunk_def by (rule unat_chunk)
    have r: "unat (xremaining - xchunk) = unat xremaining - unat xchunk"
      unfolding xchunk_def by (rule unat_sub [OF chunk_le])
    have le: "unat xchunk \<le> unat xremaining" using c by simp
    have pos: "0 < unat xremaining" using False by (simp add: unat_gt_0)
    have a: "unat (curx + xchunk) = unat curx + unat xchunk"
      by (rule unat_add_small) (use le "1.prems"(1) in linarith)
    have next_ok: "unat (curx + xchunk) + unat (xremaining - xchunk) < 2 ^ 32"
      using a r le "1.prems"(1) by simp
    from "1.prems"(2) have "(cy, cx, f) = (cury, curx, xchunk * ychunk)
        \<or> (cy, cx, f) \<in> set (average_xloop cury ychunk (curx + xchunk) (xremaining - xchunk))"
      by (simp add: average_xloop_unfold [OF False xchunk_def])
    then show ?thesis
    proof
      assume "(cy, cx, f) = (cury, curx, xchunk * ychunk)"
      then show ?thesis using pos by simp
    next
      assume "(cy, cx, f) \<in> set (average_xloop cury ychunk (curx + xchunk) (xremaining - xchunk))"
      then have "cy = cury \<and> unat cx < unat (curx + xchunk) + unat (xremaining - xchunk)"
        using "1.IH" [OF False refl xchunk_def refl refl next_ok] by simp
      then show ?thesis using a r le by simp
    qed
  qed
qed

lemma average_yloop_visits:
  "unat cury + unat yremaining < 2 ^ 32 \<Longrightarrow> unat startx + unat dx < 2 ^ 32
    \<Longrightarrow> (cy, cx, f) \<in> set (average_yloop startx dx cury yremaining)
    \<Longrightarrow> unat cy < unat cury + unat yremaining \<and> unat cx < unat startx + unat dx"
proof (induction startx dx cury yremaining rule: average_yloop.induct)
  case (1 startx dx cury yremaining)
  show ?case
  proof (cases "yremaining = 0")
    case True
    with "1.prems" show ?thesis by (simp add: average_yloop.simps)
  next
    case False
    define ychunk where
      "ychunk = (if yremaining < 0x1000 - (cury AND 0xfff) then yremaining else 0x1000 - (cury AND 0xfff))"
    have c: "unat ychunk = min (4096 - unat cury mod 4096) (unat yremaining)"
      unfolding ychunk_def by (rule unat_chunk)
    have r: "unat (yremaining - ychunk) = unat yremaining - unat ychunk"
      unfolding ychunk_def by (rule unat_sub [OF chunk_le])
    have le: "unat ychunk \<le> unat yremaining" using c by simp
    have pos: "0 < unat yremaining" using False by (simp add: unat_gt_0)
    have a: "unat (cury + ychunk) = unat cury + unat ychunk"
      by (rule unat_add_small) (use le "1.prems"(1) in linarith)
    have next_ok: "unat (cury + ychunk) + unat (yremaining - ychunk) < 2 ^ 32"
      using a r le "1.prems"(1) by simp
    from "1.prems"(3) have "(cy, cx, f) \<in> set (average_xloop cury ychunk startx dx)
        \<or> (cy, cx, f) \<in> set (average_yloop startx dx (cury + ychunk) (yremaining - ychunk))"
      by (simp add: average_yloop_unfold [OF False ychunk_def])
    then show ?thesis
    proof
      assume "(cy, cx, f) \<in> set (average_xloop cury ychunk startx dx)"
      then have "cy = cury \<and> unat cx < unat startx + unat dx"
        by (rule average_xloop_visits [OF "1.prems"(2)])
      then show ?thesis using pos by simp
    next
      assume "(cy, cx, f) \<in> set (average_yloop startx dx (cury + ychunk) (yremaining - ychunk))"
      then have "unat cy < unat (cury + ychunk) + unat (yremaining - ychunk)
          \<and> unat cx < unat startx + unat dx"
        using "1.IH" [OF False refl ychunk_def refl next_ok "1.prems"(2)] by simp
      then show ?thesis using a r le by simp
    qed
  qed
qed

text \<open>The footprint of destination column x stays below the shifted source size.\<close>

lemma footprint_bound:
  assumes "(x::u32) < dwidth" and "dx = push_bit 12 swidth div dwidth"
  shows "unat (x * dx) = unat x * unat dx"
    and "unat (x * dx) + unat dx \<le> unat (push_bit 12 swidth)"
proof -
  have xlt: "unat x < unat dwidth"
    using assms(1) by (simp add: word_less_nat_alt)
  have dx: "unat dx = unat (push_bit 12 swidth) div unat dwidth"
    by (simp add: assms(2) unat_div)
  have "(unat x + 1) * unat dx \<le> unat dwidth * unat dx"
    using xlt by (intro mult_le_mono1) simp
  also have "\<dots> \<le> unat (push_bit 12 swidth)"
    by (simp add: dx)
  finally have le: "(unat x + 1) * unat dx \<le> unat (push_bit 12 swidth)" .
  have "unat x * unat dx \<le> (unat x + 1) * unat dx"
    by simp
  with le have "unat x * unat dx < 2 ^ 32"
    using unat_u32_less [of "push_bit 12 swidth"] by linarith
  then show m: "unat (x * dx) = unat x * unat dx"
    by (rule unat_mult_small)
  show "unat (x * dx) + unat dx \<le> unat (push_bit 12 swidth)"
    using le by (simp add: m)
qed

lemma below_shifted_size:
  assumes "unat c < unat (push_bit 12 (s::u32))"
  shows "drop_bit 12 (c::u32) < s"
proof -
  have "unat (push_bit 12 s) \<le> unat s * 4096"
    by (simp add: unat_push12)
  with assms have "unat c < unat s * 4096" by linarith
  then have "unat c div 4096 < unat s"
    by (simp add: less_mult_imp_div_less)
  then show ?thesis
    by (simp add: word_less_nat_alt unat_drop12)
qed

text \<open>
  Claim C10.  With the steps the dispatcher computes, \<open>dx = (swidth << 12) / dwidth\<close> and
  \<open>dy = (sheight << 12) / dheight\<close> in 32-bit arithmetic, every cell visited for a
  destination pixel \<open>(x, y)\<close> with \<open>x < dwidth\<close> and \<open>y < dheight\<close> (so both are at least
  1) is read inside the source grid: \<open>curx >> 12 < swidth\<close> and \<open>cury >> 12 < sheight\<close>.
\<close>

theorem average_reads_in_bounds:
  assumes "dx = push_bit 12 swidth div (dwidth::u32)" and "dy = push_bit 12 sheight div (dheight::u32)"
    and "x < dwidth" and "y < dheight"
    and "(cury, curx, factor) \<in> set (average_cells dx dy x y)"
  shows "drop_bit 12 curx < swidth \<and> drop_bit 12 cury < sheight"
proof -
  note fx = footprint_bound [OF assms(3) assms(1)]
  note fy = footprint_bound [OF assms(4) assms(2)]
  have hx: "unat (x * dx) + unat dx < 2 ^ 32"
    using fx(2) unat_u32_less [of "push_bit 12 swidth"] by linarith
  have hy: "unat (y * dy) + unat dy < 2 ^ 32"
    using fy(2) unat_u32_less [of "push_bit 12 sheight"] by linarith
  have "unat cury < unat (y * dy) + unat dy \<and> unat curx < unat (x * dx) + unat dx"
    using average_yloop_visits [OF hy hx] assms(5) by (simp add: average_cells_def)
  then have "unat curx < unat (push_bit 12 swidth)" and "unat cury < unat (push_bit 12 sheight)"
    using fx(2) fy(2) by linarith+
  then show ?thesis
    by (simp add: below_shifted_size)
qed

lemma average_cells_example:
  "average_cells 0x2000 0x2000 0 0 =
     [(0, 0, 0x1000000), (0, 0x1000, 0x1000000), (0x1000, 0, 0x1000000), (0x1000, 0x1000, 0x1000000)]"
  by (simp add: average_cells_def average_yloop.simps average_xloop.simps Let_def)

theorem average_reads_in_bounds_witness:
  "(0x2000::u32) = push_bit 12 2 div 1 \<and> (0x2000::u32) = push_bit 12 2 div 1
     \<and> (0::u32) < 1 \<and> (0::u32) < 1
     \<and> (0x1000, 0x1000, 0x1000000) \<in> set (average_cells 0x2000 0x2000 0 0)
     \<and> drop_bit 12 (0x1000::u32) < 2 \<and> drop_bit 12 (0x1000::u32) < 2"
proof -
  have m: "(0x1000, 0x1000, 0x1000000) \<in> set (average_cells 0x2000 0x2000 0 0)"
    by (simp add: average_cells_example)
  have s: "(0x2000::u32) = push_bit 12 2 div 1"
    by simp
  have l: "(0::u32) < 1"
    by simp
  show ?thesis
    using average_reads_in_bounds [OF s s l l m] s l m by simp
qed

section \<open>Single-precision arithmetic\<close>

text \<open>
  The dispatcher and the samplers convert to \<open>float\<close>, multiply and divide there and
  convert back, and \<open>render_line_to_quad\<close> computes in \<open>float\<close> throughout.  A \<open>float\<close> is
  the real number it denotes; \<open>to_float\<close> rounds a real to the nearest number with a 24-bit
  significand, ties to the even significand, which is what a conversion or an arithmetic
  operation of IEEE 754 single precision returns as long as the result is neither too
  large nor too small for the exponent range: a magnitude from \<open>2 powi (-126)\<close> up to
  the largest \<open>float\<close>, or a result that needs no rounding.
\<close>

definition round_to_even :: "real \<Rightarrow> int" where
  "round_to_even x =
     (let f = \<lfloor>x\<rfloor>; r = x - of_int f
      in if r < 1 / 2 then f else if 1 / 2 < r then f + 1 else if even f then f else f + 1)"

definition to_float :: "real \<Rightarrow> real" where
  "to_float x =
     (if x = 0 then 0
      else let ulp = 2 powi (\<lfloor>log 2 \<bar>x\<bar>\<rfloor> - 23)
           in of_int (round_to_even (x / ulp)) * ulp)"

lemma round_to_even_of_int [simp]: "round_to_even (of_int z) = z"
  by (simp add: round_to_even_def)

lemma to_float_exact:
  assumes "\<bar>m\<bar> < 2 ^ 24"
  shows "to_float (of_int m * 2 powi k) = of_int m * 2 powi k"
proof (cases "m = 0")
  case True
  then show ?thesis by (simp add: to_float_def)
next
  case False
  define x :: real where "x = of_int m * 2 powi k"
  define e where "e = \<lfloor>log 2 \<bar>x\<bar>\<rfloor>"
  have xpos: "0 < \<bar>x\<bar>" using False by (simp add: x_def)
  have absx: "\<bar>x\<bar> = of_int \<bar>m\<bar> * 2 powi k"
    by (simp add: x_def abs_mult)
  have "2 powr (of_int e) \<le> 2 powr (log 2 \<bar>x\<bar>)"
    by (simp add: e_def)
  then have "2 powi e \<le> \<bar>x\<bar>"
    using xpos by (simp add: powr_real_of_int')
  also have "\<dots> < 2 ^ 24 * 2 powi k"
    unfolding absx using assms
    by (intro mult_strict_right_mono) (simp_all add: of_int_less_iff [where 'a = real, symmetric] del: of_int_less_iff)
  also have "\<dots> = 2 powi (24 + k)"
    by (simp add: power_int_add)
  finally have lt: "2 powi e < (2::real) powi (24 + k)" .
  have "e < 24 + k"
  proof (rule ccontr)
    assume "\<not> e < 24 + k"
    then have "24 + k \<le> e" by simp
    then have "(2::real) powi (24 + k) \<le> 2 powi e"
      by (rule power_int_increasing) simp
    with lt show False by simp
  qed
  then obtain n :: nat where n: "k - (e - 23) = int n"
    using nonneg_int_cases [of "k - (e - 23)"] by auto
  have "x / 2 powi (e - 23) = of_int m * 2 powi (k - (e - 23))"
    by (simp add: x_def power_int_diff)
  also have "\<dots> = of_int (m * 2 ^ n)"
    by (simp add: n)
  finally have q: "x / 2 powi (e - 23) = of_int (m * 2 ^ n)" .
  have "to_float x = of_int (round_to_even (x / 2 powi (e - 23))) * 2 powi (e - 23)"
    using xpos by (simp add: to_float_def e_def Let_def)
  also have "\<dots> = of_int (m * 2 ^ n) * 2 powi (e - 23)"
    by (simp only: q round_to_even_of_int)
  also have "\<dots> = x"
    using q by (simp add: field_simps)
  finally show ?thesis by (simp add: x_def)
qed

text \<open>
  Rounding moves a number by at most half a unit in the last place, which is at most
  \<open>2 powi (-24)\<close> of its magnitude; and the rounding of a number whose binade is known
  is the rounding of its significand.
\<close>

lemma to_float_zero [simp]: "to_float 0 = 0"
  by (simp add: to_float_def)






text \<open>
  Conversions: a \<open>float\<close> to \<open>u32\<close> drops the fraction, and \<open>u32\<close> to \<open>float\<close> rounds.
\<close>

definition u32_of_float :: "real \<Rightarrow> u32" where
  "u32_of_float x = word_of_int \<lfloor>x\<rfloor>"

definition float_of_u32 :: "u32 \<Rightarrow> real" where
  "float_of_u32 n = to_float (real (unat n))"

section \<open>Geometry: clipping a line, widening a line to a quad\<close>

text \<open>
  \<open>render_bounds\<close> holds four single-precision coordinates, each the real number it
  denotes.  The comparisons of the code are the comparisons of the reals for every value
  that is not a NaN.  In \<open>render_clip_line\<close> the arithmetic of the intersection is exact
  where the floating-point operations round; in \<open>render_line_to_quad\<close> every operation
  rounds its result with \<open>to_float\<close>.
\<close>

record render_bounds =
  x0 :: real
  y0 :: real
  x1 :: real
  y1 :: real

text \<open>
  The Cohen-Sutherland bits of one endpoint against the clip rectangle; the source
  writes the four tests out twice, once for \<open>(x0, y0)\<close> into \<open>code0\<close> and once for
  \<open>(x1, y1)\<close> into \<open>code1\<close>.
\<close>

definition outcode :: "real \<Rightarrow> real \<Rightarrow> render_bounds \<Rightarrow> u8" where
  "outcode x y clip =
     (let code = 0;
          code = (if y > y1 clip then code OR 1 else code);
          code = (if y < y0 clip then code OR 2 else code);
          code = (if x > x1 clip then code OR 4 else code);
          code = (if x < x0 clip then code OR 8 else code)
      in code)"

text \<open>
  \<open>render_clip_line\<close> loops until one of its two \<open>return\<close> statements is reached, so
  it is a partial function: \<open>Some (rejected, bounds)\<close> is the returned flag together with
  the bounds as the call leaves them, \<open>None\<close> is a loop that never ends.
\<close>

partial_function (option) render_clip_line ::
    "render_bounds \<Rightarrow> render_bounds \<Rightarrow> (bool \<times> render_bounds) option" where
  "render_clip_line bounds clip =
     (let code0 = outcode (x0 bounds) (y0 bounds) clip;
          code1 = outcode (x1 bounds) (y1 bounds) clip
      in if code0 OR code1 = 0 then Some (False, bounds)
         else if code0 AND code1 \<noteq> 0 then Some (True, bounds)
         else
           let thiscode = (if code0 \<noteq> 0 then code0 else code1);
               (x, y) =
                 (if thiscode AND 1 \<noteq> 0 then
                    (x0 bounds + (x1 bounds - x0 bounds) * (y1 clip - y0 bounds) / (y1 bounds - y0 bounds),
                     y1 clip)
                  else if thiscode AND 2 \<noteq> 0 then
                    (x0 bounds + (x1 bounds - x0 bounds) * (y0 clip - y0 bounds) / (y1 bounds - y0 bounds),
                     y0 clip)
                  else if thiscode AND 4 \<noteq> 0 then
                    (x1 clip,
                     y0 bounds + (y1 bounds - y0 bounds) * (x1 clip - x0 bounds) / (x1 bounds - x0 bounds))
                  else
                    (x0 clip,
                     y0 bounds + (y1 bounds - y0 bounds) * (x0 clip - x0 bounds) / (x1 bounds - x0 bounds)))
           in if thiscode = code0
              then render_clip_line (bounds\<lparr>x0 := x, y0 := y\<rparr>) clip
              else render_clip_line (bounds\<lparr>x1 := x, y1 := y\<rparr>) clip)"

lemma outcode_zero_iff:
  "outcode x y clip = 0 \<longleftrightarrow> x0 clip \<le> x \<and> x \<le> x1 clip \<and> y0 clip \<le> y \<and> y \<le> y1 clip"
  by (auto simp: outcode_def Let_def)

lemma or_zero_word: "(a::u8) OR b = 0 \<longleftrightarrow> a = 0 \<and> b = 0"
  by (simp add: or_eq_0_iff)

lemma outcode_cases:
  "outcode x y clip =
     (if y > y1 clip then 1 else 0) OR (if y < y0 clip then 2 else 0)
       OR (if x > x1 clip then 4 else 0) OR (if x < x0 clip then 8 else 0)"
  by (simp add: outcode_def Let_def)

lemma outcode_share_iff:
  "outcode xa ya clip AND outcode xb yb clip \<noteq> 0 \<longleftrightarrow>
     (ya > y1 clip \<and> yb > y1 clip) \<or> (ya < y0 clip \<and> yb < y0 clip)
       \<or> (xa > x1 clip \<and> xb > x1 clip) \<or> (xa < x0 clip \<and> xb < x0 clip)"
  by (simp add: outcode_cases)

text \<open>
  Claim C4.  A segment with both endpoints inside the clip rectangle is accepted at the
  first outcode check: \<open>render_clip_line\<close> returns \<open>false\<close> and the bounds are the ones
  passed in.  A segment whose two outcodes share a set bit is rejected at that same check:
  it returns \<open>true\<close>.  The segment (-10,-10)-(-5,-5) against the clip rectangle
  (0,0)-(10,10) is such a segment.
\<close>

theorem render_clip_line_trivial:
  "(x0 clip \<le> x0 bounds \<and> x0 bounds \<le> x1 clip \<and> y0 clip \<le> y0 bounds \<and> y0 bounds \<le> y1 clip
      \<and> x0 clip \<le> x1 bounds \<and> x1 bounds \<le> x1 clip \<and> y0 clip \<le> y1 bounds \<and> y1 bounds \<le> y1 clip
      \<longrightarrow> render_clip_line bounds clip = Some (False, bounds))
   \<and> (outcode (x0 bounds) (y0 bounds) clip AND outcode (x1 bounds) (y1 bounds) clip \<noteq> 0
      \<longrightarrow> render_clip_line bounds clip = Some (True, bounds))"
proof (intro conjI impI)
  assume "x0 clip \<le> x0 bounds \<and> x0 bounds \<le> x1 clip \<and> y0 clip \<le> y0 bounds \<and> y0 bounds \<le> y1 clip
      \<and> x0 clip \<le> x1 bounds \<and> x1 bounds \<le> x1 clip \<and> y0 clip \<le> y1 bounds \<and> y1 bounds \<le> y1 clip"
  then have "outcode (x0 bounds) (y0 bounds) clip = 0" and "outcode (x1 bounds) (y1 bounds) clip = 0"
    by (simp_all add: outcode_zero_iff)
  then show "render_clip_line bounds clip = Some (False, bounds)"
    by (subst render_clip_line.simps) simp
next
  assume share: "outcode (x0 bounds) (y0 bounds) clip AND outcode (x1 bounds) (y1 bounds) clip \<noteq> 0"
  then have "outcode (x0 bounds) (y0 bounds) clip OR outcode (x1 bounds) (y1 bounds) clip \<noteq> 0"
    by (auto simp: or_eq_0_iff)
  with share show "render_clip_line bounds clip = Some (True, bounds)"
    by (subst render_clip_line.simps) (simp add: Let_def)
qed

theorem render_clip_line_trivial_witness:
  "(0::real) \<le> 1 \<and> (1::real) \<le> 10 \<and> (0::real) \<le> 2 \<and> (2::real) \<le> 10
   \<and> (0::real) \<le> 3 \<and> (3::real) \<le> 10 \<and> (0::real) \<le> 4 \<and> (4::real) \<le> 10
   \<and> render_clip_line \<lparr>x0 = 1, y0 = 2, x1 = 3, y1 = 4\<rparr> \<lparr>x0 = 0, y0 = 0, x1 = 10, y1 = 10\<rparr>
      = Some (False, \<lparr>x0 = 1, y0 = 2, x1 = 3, y1 = 4\<rparr>)
   \<and> outcode (-10) (-10) \<lparr>x0 = 0, y0 = 0, x1 = 10, y1 = 10\<rparr>
        AND outcode (-5) (-5) \<lparr>x0 = 0, y0 = 0, x1 = 10, y1 = 10\<rparr> \<noteq> 0
   \<and> render_clip_line \<lparr>x0 = -10, y0 = -10, x1 = -5, y1 = -5\<rparr> \<lparr>x0 = 0, y0 = 0, x1 = 10, y1 = 10\<rparr>
      = Some (True, \<lparr>x0 = -10, y0 = -10, x1 = -5, y1 = -5\<rparr>)"
  using render_clip_line_trivial [of "\<lparr>x0 = 0, y0 = 0, x1 = 10, y1 = 10\<rparr>" "\<lparr>x0 = 1, y0 = 2, x1 = 3, y1 = 4\<rparr>"]
    render_clip_line_trivial [of "\<lparr>x0 = 0, y0 = 0, x1 = 10, y1 = 10\<rparr>" "\<lparr>x0 = -10, y0 = -10, x1 = -5, y1 = -5\<rparr>"]
  by (simp add: outcode_def)



















section \<open>Pixels and bitmaps\<close>

text \<open>
  Modelled from the spec: \<open>rgb_t\<close> and \<open>bitmap_argb32\<close> are declared outside the
  sources at hand.  A pixel is a 32-bit packed quadruple alpha, red, green, blue, eight
  bits each, alpha in the top byte; \<open>rgb_t(a, r, g, b)\<close> packs four bytes and \<open>a()\<close>,
  \<open>r()\<close>, \<open>g()\<close>, \<open>b()\<close> read them back.
\<close>

definition rgb_t :: "u8 \<Rightarrow> u8 \<Rightarrow> u8 \<Rightarrow> u8 \<Rightarrow> u32" where
  "rgb_t a r g b = push_bit 24 (ucast a) OR push_bit 16 (ucast r) OR push_bit 8 (ucast g) OR ucast b"

definition rgb_a :: "u32 \<Rightarrow> u8" where "rgb_a p = ucast (drop_bit 24 p)"
definition rgb_r :: "u32 \<Rightarrow> u8" where "rgb_r p = ucast (drop_bit 16 p)"
definition rgb_g :: "u32 \<Rightarrow> u8" where "rgb_g p = ucast (drop_bit 8 p)"
definition rgb_b :: "u32 \<Rightarrow> u8" where "rgb_b p = ucast p"

lemma rgb_t_components: "rgb_t (rgb_a p) (rgb_r p) (rgb_g p) (rgb_b p) = p"
proof (rule bit_word_eqI)
  fix n
  assume n: "n < LENGTH(32)"
  note defs = rgb_t_def rgb_a_def rgb_r_def rgb_g_def rgb_b_def bit_simps
  consider "n < 8" | "8 \<le> n" "n < 16" | "16 \<le> n" "n < 24" | "24 \<le> n"
    by linarith
  then show "bit (rgb_t (rgb_a p) (rgb_r p) (rgb_g p) (rgb_b p)) n = bit p n"
  proof cases
    case 1
    with n show ?thesis by (auto simp: defs)
  next
    case 2
    with n show ?thesis by (auto simp: defs)
  next
    case 3
    with n show ?thesis by (auto simp: defs)
  next
    case 4
    with n show ?thesis by (auto simp: defs)
  qed
qed

lemma rgb_a_rgb_t: "rgb_a (rgb_t a r g b) = a"
  apply (rule bit_word_eqI)
  apply (auto simp: rgb_t_def rgb_a_def rgb_r_def rgb_g_def rgb_b_def bit_simps dest: bit_imp_le_length)
  done

text \<open>
  Modelled from the spec: a bitmap is a grid of pixels with a width, a height and a row
  stride; pixel \<open>(x, y)\<close> is element \<open>y * rowpixels + x\<close> of the storage.  \<open>reset\<close> leaves
  the bitmap empty, without storage, and \<open>valid\<close> tells whether there is storage.
\<close>

record bitmap_argb32 =
  base :: "u32 list option"
  width :: u32
  height :: u32
  rowpixels :: u32

definition bitmap_reset :: bitmap_argb32 where
  "bitmap_reset = \<lparr>base = None, width = 0, height = 0, rowpixels = 0\<rparr>"

definition valid :: "bitmap_argb32 \<Rightarrow> bool" where
  "valid bitmap \<longleftrightarrow> base bitmap \<noteq> None"

definition pix_update :: "bitmap_argb32 \<Rightarrow> nat \<Rightarrow> nat \<Rightarrow> u32 \<Rightarrow> bitmap_argb32" where
  "pix_update bitmap y x v =
     bitmap\<lparr>base := map_option (\<lambda>p. p[y * unat (rowpixels bitmap) + x := v]) (base bitmap)\<rparr>"

text \<open>\<open>pix(y, x)\<close> of a bitmap with storage.\<close>

definition bitmap_pix :: "bitmap_argb32 \<Rightarrow> nat \<Rightarrow> nat \<Rightarrow> u32" where
  "bitmap_pix bitmap y x = the (base bitmap) ! (y * unat (rowpixels bitmap) + x)"


section \<open>The samplers\<close>

text \<open>
  What C++ leaves undefined is a result of its own here: an integer division by zero, and
  a read or a write outside the pixels of a bitmap.  \<open>fetch\<close> and \<open>store\<close> are a read and
  a write through a pixel pointer with a \<open>u32\<close> index, \<open>fold_fault\<close> runs a loop body over
  a list of values and stops at the first fault, and \<open>u32_upto n\<close> are the values of a
  \<open>u32\<close> loop counter that runs from 0 while it is below \<open>n\<close>.
\<close>

datatype fault = Divide_by_zero | Out_of_bounds

definition fetch :: "u32 list \<Rightarrow> u32 \<Rightarrow> fault + u32" where
  "fetch mem i = (if unat i < length mem then Inr (mem ! unat i) else Inl Out_of_bounds)"

definition store :: "u32 list \<Rightarrow> u32 \<Rightarrow> u32 \<Rightarrow> fault + u32 list" where
  "store mem i v = (if unat i < length mem then Inr (mem[unat i := v]) else Inl Out_of_bounds)"

primrec fold_fault :: "('a \<Rightarrow> 's \<Rightarrow> fault + 's) \<Rightarrow> 'a list \<Rightarrow> 's \<Rightarrow> fault + 's" where
  "fold_fault f [] s = Inr s"
| "fold_fault f (x # xs) s = (case f x s of Inl e \<Rightarrow> Inl e | Inr s' \<Rightarrow> fold_fault f xs s')"

definition u32_upto :: "u32 \<Rightarrow> u32 list" where
  "u32_upto n = map of_nat [0..<unat n]"

text \<open>
  Modelled from the spec: \<open>render_color\<close>, declared outside the sources at hand, has the
  four \<open>float\<close> channels a, r, g, b.  Each sampler starts by computing the premultiplied
  factors \<open>r\<close>, \<open>g\<close>, \<open>b\<close>, \<open>a\<close> from it.
\<close>

record render_color =
  color_a :: real
  color_r :: real
  color_g :: real
  color_b :: real

definition premultiplied :: "render_color \<Rightarrow> u32 \<times> u32 \<times> u32 \<times> u32" where
  "premultiplied color =
     (u32_of_float (to_float (to_float (color_r color * color_a color) * 256)),
      u32_of_float (to_float (to_float (color_g color * color_a color) * 256)),
      u32_of_float (to_float (to_float (color_b color * color_a color) * 256)),
      u32_of_float (to_float (color_a color * 256)))"

text \<open>
  The last two steps of every sampler: if the tint is translucent add the destination
  pixel's share to the four sums (of 32 bits in two samplers, of 64 bits in the
  weighted-average sampler), then store \<open>rgb_t(suma, sumr, sumg, sumb)\<close>, which
  keeps the low byte of each sum.
\<close>

definition blend_and_store ::
    "u32 list \<Rightarrow> u32 \<Rightarrow> u32 \<Rightarrow> 'n::len word \<Rightarrow> 'n word \<Rightarrow> 'n word \<Rightarrow> 'n word \<Rightarrow> fault + u32 list" where
  "blend_and_store dest i a suma sumr sumg sumb =
     (if a < 256 then
        case fetch dest i of
          Inl e \<Rightarrow> Inl e
        | Inr dpix \<Rightarrow>
            store dest i
              (rgb_t (ucast (suma + ucast (ucast (rgb_a dpix) * (256 - a))))
                     (ucast (sumr + ucast (ucast (rgb_r dpix) * (256 - a))))
                     (ucast (sumg + ucast (ucast (rgb_g dpix) * (256 - a))))
                     (ucast (sumb + ucast (ucast (rgb_b dpix) * (256 - a)))))
      else store dest i (rgb_t (ucast suma) (ucast sumr) (ucast sumg) (ucast sumb)))"

text \<open>
  The two outer loops of every sampler, over the destination rows \<open>y\<close> and columns \<open>x\<close>,
  and the body of each sampler for one destination pixel.
\<close>

definition for_each_pixel ::
    "u32 \<Rightarrow> u32 \<Rightarrow> (u32 \<Rightarrow> u32 \<Rightarrow> u32 list \<Rightarrow> fault + u32 list) \<Rightarrow> u32 list \<Rightarrow> fault + u32 list" where
  "for_each_pixel dwidth dheight body dest =
     fold_fault (\<lambda>y. fold_fault (\<lambda>x. body y x) (u32_upto dwidth)) (u32_upto dheight) dest"

definition integer_pixel ::
    "u32 list \<Rightarrow> u32 \<Rightarrow> u32 \<times> u32 \<times> u32 \<times> u32 \<Rightarrow> u32 \<Rightarrow> u32 \<Rightarrow> u32
       \<Rightarrow> u32 \<Rightarrow> u32 \<Rightarrow> u32 list \<Rightarrow> fault + u32 list" where
  "integer_pixel source srowpixels factors dx dy drowpixels y x dest =
     (let (r, g, b, a) = factors;
          cury = y * dy;
          curx = x * dx
      in case fetch source (drop_bit 12 cury * srowpixels + drop_bit 12 curx) of
           Inl e \<Rightarrow> Inl e
         | Inr pix \<Rightarrow>
             let suma = ucast (rgb_a pix) * a div 256;
                 sumr = ucast (rgb_r pix) * r div 256;
                 sumg = ucast (rgb_g pix) * g div 256;
                 sumb = ucast (rgb_b pix) * b div 256
             in blend_and_store dest (y * drowpixels + x) a suma sumr sumg sumb)"

definition resample_argb_bitmap_integer ::
    "u32 list \<Rightarrow> u32 \<Rightarrow> u32 \<Rightarrow> u32 \<Rightarrow> u32 list \<Rightarrow> u32 \<Rightarrow> u32 \<Rightarrow> u32 \<Rightarrow> render_color \<Rightarrow> u32 \<Rightarrow> u32
       \<Rightarrow> fault + u32 list" where
  "resample_argb_bitmap_integer dest drowpixels dwidth dheight source srowpixels swidth sheight color dx dy =
     for_each_pixel dwidth dheight
       (integer_pixel source srowpixels (premultiplied color) dx dy drowpixels) dest"

definition average_pixel ::
    "u32 list \<Rightarrow> u32 \<Rightarrow> u32 \<times> u32 \<times> u32 \<times> u32 \<Rightarrow> u32 \<Rightarrow> u32 \<Rightarrow> u32
       \<Rightarrow> u32 \<Rightarrow> u32 \<Rightarrow> u32 list \<Rightarrow> fault + u32 list" where
  "average_pixel source srowpixels factors dx dy drowpixels y x dest =
     (let (r, g, b, a) = factors;
          sumscale = (ucast dx :: u64) * ucast dy
      in case fold_fault
                (\<lambda>(cury, curx, factor) (sumr, sumg, sumb, suma).
                   case fetch source (drop_bit 12 cury * srowpixels + drop_bit 12 curx) of
                     Inl e \<Rightarrow> Inl e
                   | Inr pix \<Rightarrow>
                       Inr (sumr + ucast (factor * ucast (rgb_r pix)),
                            sumg + ucast (factor * ucast (rgb_g pix)),
                            sumb + ucast (factor * ucast (rgb_b pix)),
                            suma + ucast (factor * ucast (rgb_a pix))))
                (average_cells dx dy x y) (0, 0, 0, 0) of
           Inl e \<Rightarrow> Inl e
         | Inr (sumr, sumg, sumb, suma) \<Rightarrow>
             if sumscale = 0 then Inl Divide_by_zero
             else
               let suma = (suma div sumscale) * ucast a div 256;
                   sumr = (sumr div sumscale) * ucast r div 256;
                   sumg = (sumg div sumscale) * ucast g div 256;
                   sumb = (sumb div sumscale) * ucast b div 256
               in blend_and_store dest (y * drowpixels + x) a suma sumr sumg sumb)"

definition resample_argb_bitmap_average ::
    "u32 list \<Rightarrow> u32 \<Rightarrow> u32 \<Rightarrow> u32 \<Rightarrow> u32 list \<Rightarrow> u32 \<Rightarrow> u32 \<Rightarrow> u32 \<Rightarrow> render_color \<Rightarrow> u32 \<Rightarrow> u32
       \<Rightarrow> fault + u32 list" where
  "resample_argb_bitmap_average dest drowpixels dwidth dheight source srowpixels swidth sheight color dx dy =
     for_each_pixel dwidth dheight
       (average_pixel source srowpixels (premultiplied color) dx dy drowpixels) dest"

definition bilinear_pixel ::
    "u32 list \<Rightarrow> u32 \<Rightarrow> u32 \<Rightarrow> u32 \<Rightarrow> u32 \<times> u32 \<times> u32 \<times> u32 \<Rightarrow> u32 \<Rightarrow> u32 \<Rightarrow> u32
       \<Rightarrow> u32 \<Rightarrow> u32 \<Rightarrow> u32 list \<Rightarrow> fault + u32 list" where
  "bilinear_pixel source srowpixels swidth sheight factors dx dy drowpixels y x dest =
     (let (r, g, b, a) = factors;
          maxx = push_bit 12 swidth;
          maxy = push_bit 12 sheight;
          starty = y * dy;
          startx = x * dx;
          curx = startx + dx div 2 - 0x800;
          cury = starty + dy div 2 - 0x800;
          nextx = curx + 0x1000;
          nexty = cury + 0x1000;
          pixel = (\<lambda>cy cx. if 0 \<le> sint cy \<and> cy < maxy \<and> 0 \<le> sint cx \<and> cx < maxx
                            then fetch source (drop_bit 12 cy * srowpixels + drop_bit 12 cx)
                            else Inr 0)
      in case pixel cury curx of Inl e \<Rightarrow> Inl e | Inr pix0 \<Rightarrow>
        (case pixel cury nextx of Inl e \<Rightarrow> Inl e | Inr pix1 \<Rightarrow>
        (case pixel nexty curx of Inl e \<Rightarrow> Inl e | Inr pix2 \<Rightarrow>
        (case pixel nexty nextx of Inl e \<Rightarrow> Inl e | Inr pix3 \<Rightarrow>
           let curx = curx AND 0xfff;
               cury = cury AND 0xfff;
               f0 = (0x1000 - curx) * (0x1000 - cury);
               f1 = curx * (0x1000 - cury);
               f2 = (0x1000 - curx) * cury;
               f3 = curx * cury;
               sumr = f0 * ucast (rgb_r pix0) + f1 * ucast (rgb_r pix1)
                        + f2 * ucast (rgb_r pix2) + f3 * ucast (rgb_r pix3);
               sumg = f0 * ucast (rgb_g pix0) + f1 * ucast (rgb_g pix1)
                        + f2 * ucast (rgb_g pix2) + f3 * ucast (rgb_g pix3);
               sumb = f0 * ucast (rgb_b pix0) + f1 * ucast (rgb_b pix1)
                        + f2 * ucast (rgb_b pix2) + f3 * ucast (rgb_b pix3);
               suma = f0 * ucast (rgb_a pix0) + f1 * ucast (rgb_a pix1)
                        + f2 * ucast (rgb_a pix2) + f3 * ucast (rgb_a pix3);
               suma = drop_bit 24 suma * a div 256;
               sumr = drop_bit 24 sumr * r div 256;
               sumg = drop_bit 24 sumg * g div 256;
               sumb = drop_bit 24 sumb * b div 256
           in blend_and_store dest (y * drowpixels + x) a suma sumr sumg sumb))))"

definition resample_argb_bitmap_bilinear ::
    "u32 list \<Rightarrow> u32 \<Rightarrow> u32 \<Rightarrow> u32 \<Rightarrow> u32 list \<Rightarrow> u32 \<Rightarrow> u32 \<Rightarrow> u32 \<Rightarrow> render_color \<Rightarrow> u32 \<Rightarrow> u32
       \<Rightarrow> fault + u32 list" where
  "resample_argb_bitmap_bilinear dest drowpixels dwidth dheight source srowpixels swidth sheight color dx dy =
     for_each_pixel dwidth dheight
       (bilinear_pixel source srowpixels swidth sheight (premultiplied color) dx dy drowpixels) dest"

section \<open>The resample dispatcher\<close>

text \<open>\<open>ceil(float(n) / d)\<close> stored into a \<open>u32\<close>, for \<open>u32\<close> values \<open>n\<close> and \<open>d\<close>.\<close>

definition ceil_float_div :: "u32 \<Rightarrow> u32 \<Rightarrow> u32" where
  "ceil_float_div n d = u32_of_float (of_int \<lceil>to_float (float_of_u32 n / float_of_u32 d)\<rceil>)"

text \<open>
  \<open>render_resample_argb_bitmap_hq\<close> in two steps: which sampler it calls and with which
  steps \<open>dx\<close>, \<open>dy\<close>, and the call itself on the pixels of the two bitmaps.  The test
  \<open>dwidth % swidth == 0 && dheight % sheight == 0\<close> divides by the source size, from left
  to right.
\<close>

datatype resample_call =
    No_resample
  | Resample_average u32 u32
  | Resample_integer u32 u32
  | Resample_bilinear u32 u32

definition render_resample_argb_bitmap_hq_select ::
    "u32 \<Rightarrow> u32 \<Rightarrow> u32 \<Rightarrow> u32 \<Rightarrow> bool \<Rightarrow> fault + resample_call" where
  "render_resample_argb_bitmap_hq_select dwidth dheight swidth sheight force =
     (if dwidth = 0 \<or> dheight = 0 then Inr No_resample
      else
        let dx = push_bit 12 swidth div dwidth;
            dy = push_bit 12 sheight div dheight
        in if dx > 0x1000 \<or> dy > 0x1000 \<or> force then Inr (Resample_average dx dy)
           else
             let dx = ceil_float_div (push_bit 12 swidth) dwidth;
                 dy = ceil_float_div (push_bit 12 sheight) dheight
             in if swidth = 0 then Inl Divide_by_zero
                else if dwidth mod swidth = 0 then
                  if sheight = 0 then Inl Divide_by_zero
                  else if dheight mod sheight = 0 then Inr (Resample_integer dx dy)
                  else Inr (Resample_bilinear dx dy)
                else Inr (Resample_bilinear dx dy))"

definition render_resample_argb_bitmap_hq ::
    "bitmap_argb32 \<Rightarrow> bitmap_argb32 \<Rightarrow> render_color \<Rightarrow> bool \<Rightarrow> fault + bitmap_argb32" where
  "render_resample_argb_bitmap_hq dest source color force =
     (case render_resample_argb_bitmap_hq_select (width dest) (height dest) (width source) (height source) force of
        Inl e \<Rightarrow> Inl e
      | Inr call \<Rightarrow>
         (case (base dest, base source) of
            (Some dpix, Some spix) \<Rightarrow>
              (let run = (\<lambda>sampler dx dy.
                            case sampler dpix (rowpixels dest) (width dest) (height dest)
                                   spix (rowpixels source) (width source) (height source) color dx dy of
                              Inl e \<Rightarrow> Inl e
                            | Inr dpix' \<Rightarrow> Inr (dest\<lparr>base := Some dpix'\<rparr>))
               in case call of
                    No_resample \<Rightarrow> Inr dest
                  | Resample_average dx dy \<Rightarrow> run resample_argb_bitmap_average dx dy
                  | Resample_integer dx dy \<Rightarrow> run resample_argb_bitmap_integer dx dy
                  | Resample_bilinear dx dy \<Rightarrow> run resample_argb_bitmap_bilinear dx dy)
          | _ \<Rightarrow> (case call of No_resample \<Rightarrow> Inr dest | _ \<Rightarrow> Inl Out_of_bounds)))"

subsection \<open>Which sampler is selected\<close>

lemma to_float_of_nat:
  "n < 2 ^ 24 \<Longrightarrow> to_float (real n) = real n"
  using to_float_exact [of "int n" 0] by simp

lemma to_float_of_nat_shifted:
  "n < 2 ^ 24 \<Longrightarrow> to_float (real (n * 2 ^ k)) = real (n * 2 ^ k)"
  using to_float_exact [of "int n" "int k"] by (simp add: power_int_def)

lemma ceil_float_div_exact:
  assumes "unat n = q * unat d" and "unat d \<noteq> 0" and "q < 2 ^ 24"
    and "to_float (real (unat n)) = real (unat n)" and "to_float (real (unat d)) = real (unat d)"
  shows "ceil_float_div n d = of_nat q"
proof -
  have "real (unat d) \<noteq> 0"
    using assms(2) by (simp del: of_nat_unat)
  then have "real (unat n) / real (unat d) = real q"
    by (simp add: assms(1) del: of_nat_unat)
  then have "float_of_u32 n / float_of_u32 d = real q"
    by (simp only: float_of_u32_def assms(4,5))
  moreover have "to_float (real q) = real q"
    using assms(3) by (rule to_float_of_nat)
  ultimately show ?thesis
    by (simp add: ceil_float_div_def u32_of_float_def)
qed

lemma unat_shifted_size:
  "unat (s::u32) < 2 ^ 20 \<Longrightarrow> unat (push_bit 12 s) = unat s * 4096"
  by (simp add: unat_push12)

lemma u32_gt_nat: "(a::u32) > 0x1000 \<longleftrightarrow> unat a > 4096"
  by (simp add: word_less_nat_alt)

lemma u32_mod_zero_iff: "(a::u32) mod b = 0 \<longleftrightarrow> unat b dvd unat a"
proof -
  have "a mod b = 0 \<longleftrightarrow> unat (a mod b) = 0"
    by (simp add: unat_eq_0)
  then show ?thesis
    by (simp add: unat_mod mod_eq_0_iff_dvd)
qed

text \<open>
  Claim C1, for a source of 1 to \<open>2^20 - 1\<close> pixels on each axis, where
  \<open>srcWidth * 4096\<close> fits the 32-bit step and the divisibility test divides by a
  nonzero size.  The weighted-average sampler is selected exactly when
  \<open>(srcWidth * 4096) / dstWidth\<close> or \<open>(srcHeight * 4096) / dstHeight\<close> exceeds 4096 or the
  force flag is set, with these two steps.  Otherwise the steps are recomputed as the
  ceiling of the single-precision quotient, and the integer sampler is selected exactly
  when the destination width is a multiple of the source width and the destination height
  a multiple of the source height, the bilinear sampler otherwise.
\<close>

theorem render_resample_select:
  assumes "dwidth \<noteq> 0" and "dheight \<noteq> 0"
    and "0 < unat swidth" and "unat swidth < 2 ^ 20"
    and "0 < unat sheight" and "unat sheight < 2 ^ 20"
  shows "render_resample_argb_bitmap_hq_select dwidth dheight swidth sheight force =
     Inr (if 4096 < unat swidth * 4096 div unat dwidth \<or> 4096 < unat sheight * 4096 div unat dheight \<or> force
          then Resample_average (of_nat (unat swidth * 4096 div unat dwidth))
                 (of_nat (unat sheight * 4096 div unat dheight))
          else if unat swidth dvd unat dwidth \<and> unat sheight dvd unat dheight
          then Resample_integer (ceil_float_div (push_bit 12 swidth) dwidth)
                 (ceil_float_div (push_bit 12 sheight) dheight)
          else Resample_bilinear (ceil_float_div (push_bit 12 swidth) dwidth)
                 (ceil_float_div (push_bit 12 sheight) dheight))"
proof -
  have dx: "unat (push_bit 12 swidth div dwidth) = unat swidth * 4096 div unat dwidth"
    by (simp add: unat_div unat_shifted_size [OF assms(4)])
  have dy: "unat (push_bit 12 sheight div dheight) = unat sheight * 4096 div unat dheight"
    by (simp add: unat_div unat_shifted_size [OF assms(6)])
  have wx: "of_nat (unat swidth * 4096 div unat dwidth) = push_bit 12 swidth div dwidth"
    by (simp flip: dx)
  have wy: "of_nat (unat sheight * 4096 div unat dheight) = push_bit 12 sheight div dheight"
    by (simp flip: dy)
  have nz: "swidth \<noteq> 0" "sheight \<noteq> 0"
    using assms(3,5) by (auto simp: unat_gt_0)
  show ?thesis
    unfolding wx wy
    using assms(1,2) nz
    by (simp add: render_resample_argb_bitmap_hq_select_def Let_def u32_gt_nat u32_mod_zero_iff dx dy)
qed

theorem render_resample_select_witness:
  "(2::u32) \<noteq> 0 \<and> (2::u32) \<noteq> 0 \<and> 0 < unat (1::u32) \<and> unat (1::u32) < 2 ^ 20
   \<and> 0 < unat (1::u32) \<and> unat (1::u32) < 2 ^ 20
   \<and> render_resample_argb_bitmap_hq_select 2 2 1 1 False
       = Inr (Resample_integer (ceil_float_div (push_bit 12 1) 2) (ceil_float_div (push_bit 12 1) 2))"
  using render_resample_select [of 2 2 1 1 False] by simp

text \<open>
  Claim C1 as stated fails for a source of \<open>2^20\<close> pixels on an axis: \<open>swidth << 12\<close>
  wraps to 0.  A source of 1048576 by 1 pixels resampled to 1 by 1 has the exact step
  \<open>2^32\<close>, far above 4096, and gets the bilinear sampler.
\<close>

lemma shift_wraps: "push_bit 12 (0x100000::u32) = 0"
proof -
  have "unat (push_bit 12 (0x100000::u32)) = 0"
    by (simp add: unat_push12)
  then show ?thesis
    by (simp only: unat_eq_0)
qed

theorem render_resample_select_wraps:
  "render_resample_argb_bitmap_hq_select 1 1 0x100000 1 False
     = Inr (Resample_bilinear (ceil_float_div 0 1) (ceil_float_div 0x1000 1))
   \<and> (4096::nat) < 0x100000 * 4096 div 1"
  by (simp add: render_resample_argb_bitmap_hq_select_def Let_def shift_wraps del: push_bit_numeral)

subsection \<open>Same size, opaque and colourless tint\<close>

text \<open>
  A loop whose steps write disjoint sets of indices \<open>W k\<close> and each establish a fact
  \<open>P k\<close> about the indices they write establishes all these facts.
\<close>

lemma fold_fault_frames:
  assumes step: "\<And>k s. k \<in> set ks \<Longrightarrow> length s = n \<Longrightarrow>
      \<exists>s'. f k s = Inr s' \<and> length s' = n \<and> P k s' \<and> (\<forall>i. i \<notin> W k \<longrightarrow> s' ! i = s ! i)"
    and stable: "\<And>k s s'. k \<in> set ks \<Longrightarrow> P k s \<Longrightarrow> (\<forall>i\<in>W k. s' ! i = s ! i) \<Longrightarrow> P k s'"
    and disjoint: "\<And>j k. j \<in> set ks \<Longrightarrow> k \<in> set ks \<Longrightarrow> j \<noteq> k \<Longrightarrow> W j \<inter> W k = {}"
    and "distinct ks" and "length s0 = n"
  shows "\<exists>s'. fold_fault f ks s0 = Inr s' \<and> length s' = n \<and> (\<forall>k\<in>set ks. P k s')
           \<and> (\<forall>i. i \<notin> (\<Union>k\<in>set ks. W k) \<longrightarrow> s' ! i = s0 ! i)"
  using assms
proof (induction ks arbitrary: s0)
  case Nil
  then show ?case by simp
next
  case (Cons k ks)
  from Cons.prems(1) [of k s0] Cons.prems(5)
  obtain s1 where s1: "f k s0 = Inr s1" "length s1 = n" "P k s1" "\<forall>i. i \<notin> W k \<longrightarrow> s1 ! i = s0 ! i"
    by auto
  have "\<exists>s'. fold_fault f ks s1 = Inr s' \<and> length s' = n \<and> (\<forall>k\<in>set ks. P k s')
           \<and> (\<forall>i. i \<notin> (\<Union>k\<in>set ks. W k) \<longrightarrow> s' ! i = s1 ! i)"
  proof (rule Cons.IH)
    show "\<And>j s. j \<in> set ks \<Longrightarrow> length s = n \<Longrightarrow>
        \<exists>s'. f j s = Inr s' \<and> length s' = n \<and> P j s' \<and> (\<forall>i. i \<notin> W j \<longrightarrow> s' ! i = s ! i)"
      using Cons.prems(1) by simp
    show "\<And>j s s'. j \<in> set ks \<Longrightarrow> P j s \<Longrightarrow> (\<forall>i\<in>W j. s' ! i = s ! i) \<Longrightarrow> P j s'"
      using Cons.prems(2) by simp
    show "\<And>i j. i \<in> set ks \<Longrightarrow> j \<in> set ks \<Longrightarrow> i \<noteq> j \<Longrightarrow> W i \<inter> W j = {}"
      using Cons.prems(3) by simp
    show "distinct ks" using Cons.prems(4) by simp
    show "length s1 = n" by (rule s1(2))
  qed
  then obtain s' where s': "fold_fault f ks s1 = Inr s'" "length s' = n" "\<forall>k\<in>set ks. P k s'"
      "\<forall>i. i \<notin> (\<Union>k\<in>set ks. W k) \<longrightarrow> s' ! i = s1 ! i"
    by auto
  have apart: "W k \<inter> (\<Union>j\<in>set ks. W j) = {}"
  proof -
    have "W k \<inter> W j = {}" if "j \<in> set ks" for j
      using Cons.prems(3) [of k j] Cons.prems(4) that by auto
    then show ?thesis by auto
  qed
  have "\<forall>i\<in>W k. s' ! i = s1 ! i"
    using s'(4) apart by auto
  then have "P k s'"
    using Cons.prems(2) [of k s1 s'] s1(3) by simp
  moreover have "\<forall>i. i \<notin> (\<Union>j\<in>set (k # ks). W j) \<longrightarrow> s' ! i = s0 ! i"
    using s'(4) s1(4) by simp
  ultimately show ?case
    using s1(1) s'(1,2,3) by simp
qed

lemma unat_of_nat_u32: "i < 2 ^ 32 \<Longrightarrow> unat (of_nat i :: u32) = i"
  by (simp add: unat_of_nat)

lemma set_u32_upto: "set (u32_upto n) = {y. y < n}"
proof (rule set_eqI)
  fix y :: u32
  have bound: "unat n < 2 ^ 32" by (rule unat_u32_less)
  show "y \<in> set (u32_upto n) \<longleftrightarrow> y \<in> {y. y < n}"
  proof
    assume "y \<in> set (u32_upto n)"
    then obtain i where i: "i < unat n" "y = of_nat i"
      by (auto simp: u32_upto_def)
    then have "unat y = i"
      using bound by (simp add: unat_of_nat_u32)
    with i show "y \<in> {y. y < n}"
      by (simp add: word_less_nat_alt)
  next
    assume "y \<in> {y. y < n}"
    then have "unat y < unat n" by (simp add: word_less_nat_alt)
    moreover have "y = of_nat (unat y)" by simp
    ultimately show "y \<in> set (u32_upto n)"
      unfolding u32_upto_def by (metis atLeast0LessThan image_eqI lessThan_iff set_map set_upt)
  qed
qed

lemma distinct_u32_upto: "distinct (u32_upto n)"
proof -
  have "inj_on (of_nat :: nat \<Rightarrow> u32) (set [0..<unat n])"
  proof (rule inj_onI)
    fix i j
    assume "i \<in> set [0..<unat n]" "j \<in> set [0..<unat n]" "(of_nat i :: u32) = of_nat j"
    moreover have "unat n < 2 ^ 32" by (rule unat_u32_less)
    ultimately have "i < 2 ^ 32" "j < 2 ^ 32" "unat (of_nat i :: u32) = unat (of_nat j :: u32)"
      by simp_all
    then show "i = j" by (simp only: unat_of_nat_u32)
  qed
  then show ?thesis
    by (simp add: u32_upto_def distinct_map)
qed

lemma channel_unscaled: "ucast ((ucast (c::u8) :: u32) * 256 div 256) = c"
proof -
  have small: "unat c < 256"
    using unsigned_less [of c, where 'a = nat] by simp
  then have c: "unat (ucast c :: u32) = unat c"
    by (simp add: unsigned_ucast_eq unsigned_take_bit_eq take_bit_eq_mod)
  from small have "unat (ucast c :: u32) * unat (256 :: u32) < 2 ^ 32"
    by (simp add: c)
  then have "unat ((ucast c :: u32) * 256) = unat c * 256"
    using unat_mult_small [of "ucast c" 256] by (simp add: c)
  then have "unat ((ucast c :: u32) * 256 div 256) = unat (ucast c :: u32)"
    by (simp add: unat_div c)
  then have "(ucast c :: u32) * 256 div 256 = ucast c"
    by (simp only: word_unat_eq_iff)
  moreover have "ucast (ucast c :: u32) = c"
    by (rule bit_word_eqI) (auto simp: bit_simps)
  ultimately show ?thesis
    by simp
qed

lemma for_each_pixel_writes:
  assumes body: "\<And>y x d. y < dheight \<Longrightarrow> x < dwidth \<Longrightarrow> length d = n \<Longrightarrow> body y x d = Inr (d[idx y x := val y x])"
    and range: "\<And>y x. y < dheight \<Longrightarrow> x < dwidth \<Longrightarrow> idx y x < n"
    and inj: "\<And>y x y' x'. y < dheight \<Longrightarrow> x < dwidth \<Longrightarrow> y' < dheight \<Longrightarrow> x' < dwidth
        \<Longrightarrow> idx y x = idx y' x' \<Longrightarrow> y = y' \<and> x = x'"
    and len: "length dest = n"
  shows "\<exists>dest'. for_each_pixel dwidth dheight body dest = Inr dest' \<and> length dest' = n
           \<and> (\<forall>y. y < dheight \<longrightarrow> (\<forall>x. x < dwidth \<longrightarrow> dest' ! idx y x = val y x))"
proof -
  have row: "\<exists>s'. fold_fault (\<lambda>x. body y x) (u32_upto dwidth) s = Inr s' \<and> length s' = n
      \<and> (\<forall>x. x < dwidth \<longrightarrow> s' ! idx y x = val y x)
      \<and> (\<forall>i. i \<notin> idx y ` {x. x < dwidth} \<longrightarrow> s' ! i = s ! i)"
    if y: "y < dheight" and s: "length s = n" for y s
  proof -
    have "\<exists>s'. fold_fault (\<lambda>x. body y x) (u32_upto dwidth) s = Inr s' \<and> length s' = n
        \<and> (\<forall>x\<in>set (u32_upto dwidth). s' ! idx y x = val y x)
        \<and> (\<forall>i. i \<notin> (\<Union>x\<in>set (u32_upto dwidth). {idx y x}) \<longrightarrow> s' ! i = s ! i)"
    proof (rule fold_fault_frames [where P = "\<lambda>x s. s ! idx y x = val y x"])
      fix x and d :: "u32 list"
      assume "x \<in> set (u32_upto dwidth)" "length d = n"
      then have "x < dwidth" by (simp add: set_u32_upto)
      with y \<open>length d = n\<close> body [of y x d] range [of y x]
      show "\<exists>s'. body y x d = Inr s' \<and> length s' = n \<and> s' ! idx y x = val y x
          \<and> (\<forall>i. i \<notin> {idx y x} \<longrightarrow> s' ! i = d ! i)"
        by simp
    next
      fix x and d d' :: "u32 list"
      assume "d ! idx y x = val y x" "\<forall>i\<in>{idx y x}. d' ! i = d ! i"
      then show "d' ! idx y x = val y x" by simp
    next
      fix j k
      assume "j \<in> set (u32_upto dwidth)" "k \<in> set (u32_upto dwidth)" "j \<noteq> k"
      then have "j < dwidth" "k < dwidth" by (simp_all add: set_u32_upto)
      with inj [of y j y k] y \<open>j \<noteq> k\<close> show "{idx y j} \<inter> {idx y k} = {}" by auto
    next
      show "distinct (u32_upto dwidth)" by (rule distinct_u32_upto)
      show "length s = n" by (rule s)
    qed
    then obtain s' where "fold_fault (\<lambda>x. body y x) (u32_upto dwidth) s = Inr s'" "length s' = n"
        "\<forall>x\<in>set (u32_upto dwidth). s' ! idx y x = val y x"
        "\<forall>i. i \<notin> (\<Union>x\<in>set (u32_upto dwidth). {idx y x}) \<longrightarrow> s' ! i = s ! i"
      by blast
    then show ?thesis
      by (simp add: set_u32_upto image_iff)
  qed
  have "\<exists>s'. fold_fault (\<lambda>y. fold_fault (\<lambda>x. body y x) (u32_upto dwidth)) (u32_upto dheight) dest = Inr s'
      \<and> length s' = n
      \<and> (\<forall>y\<in>set (u32_upto dheight). \<forall>x. x < dwidth \<longrightarrow> s' ! idx y x = val y x)
      \<and> (\<forall>i. i \<notin> (\<Union>y\<in>set (u32_upto dheight). idx y ` {x. x < dwidth}) \<longrightarrow> s' ! i = dest ! i)"
  proof (rule fold_fault_frames [where P = "\<lambda>y s. \<forall>x. x < dwidth \<longrightarrow> s ! idx y x = val y x"])
    fix y and d :: "u32 list"
    assume "y \<in> set (u32_upto dheight)" "length d = n"
    then have "y < dheight" by (simp add: set_u32_upto)
    from row [OF this \<open>length d = n\<close>]
    show "\<exists>s'. fold_fault (\<lambda>x. body y x) (u32_upto dwidth) d = Inr s' \<and> length s' = n
        \<and> (\<forall>x. x < dwidth \<longrightarrow> s' ! idx y x = val y x)
        \<and> (\<forall>i. i \<notin> idx y ` {x. x < dwidth} \<longrightarrow> s' ! i = d ! i)" .
  next
    fix y and d d' :: "u32 list"
    assume "\<forall>x. x < dwidth \<longrightarrow> d ! idx y x = val y x" "\<forall>i\<in>idx y ` {x. x < dwidth}. d' ! i = d ! i"
    then show "\<forall>x. x < dwidth \<longrightarrow> d' ! idx y x = val y x" by simp
  next
    fix j k
    assume "j \<in> set (u32_upto dheight)" "k \<in> set (u32_upto dheight)" "j \<noteq> k"
    then have "j < dheight" "k < dheight" by (simp_all add: set_u32_upto)
    with inj \<open>j \<noteq> k\<close> show "idx j ` {x. x < dwidth} \<inter> idx k ` {x. x < dwidth} = {}"
      by blast
  next
    show "distinct (u32_upto dheight)" by (rule distinct_u32_upto)
    show "length dest = n" by (rule len)
  qed
  then show ?thesis
    by (auto simp: for_each_pixel_def set_u32_upto)
qed

lemma integer_pixel_opaque:
  assumes "unat (drop_bit 12 (y * dy) * srowpixels + drop_bit 12 (x * dx)) < length source"
    and "unat (y * drowpixels + x) < length dest"
  shows "integer_pixel source srowpixels (256, 256, 256, 256) dx dy drowpixels y x dest
     = Inr (dest[unat (y * drowpixels + x) :=
                   source ! unat (drop_bit 12 (y * dy) * srowpixels + drop_bit 12 (x * dx))])"
  using assms
  by (simp add: integer_pixel_def fetch_def blend_and_store_def store_def channel_unscaled rgb_t_components)

lemma index_no_wrap:
  assumes "(y::u32) < h" and "(x::u32) < w" and "unat w \<le> unat rp" and "unat h * unat rp \<le> 2 ^ 32"
  shows "unat (y * rp + x) = unat y * unat rp + unat x"
    and "unat y * unat rp + unat x < unat h * unat rp"
proof -
  have y: "unat y < unat h" and x: "unat x < unat rp"
    using assms(1-3) by (simp_all add: word_less_nat_alt)
  have "unat y * unat rp + unat x < (unat y + 1) * unat rp"
    using x by simp
  also have "\<dots> \<le> unat h * unat rp"
    using y by (intro mult_le_mono1) simp
  finally show b: "unat y * unat rp + unat x < unat h * unat rp" .
  then have lt: "unat y * unat rp + unat x < 2 ^ 32"
    using assms(4) by linarith
  then have "unat y * unat rp < 2 ^ 32" by linarith
  then have m: "unat (y * rp) = unat y * unat rp"
    by (rule unat_mult_small)
  show "unat (y * rp + x) = unat y * unat rp + unat x"
    using unat_add_small [of "y * rp" x] lt by (simp add: m)
qed

lemma row_col_unique:
  assumes "a * d + b = a' * d + b'" and "b < d" and "b' < (d::nat)"
  shows "a = a' \<and> b = b'"
proof -
  have "(a * d + b) div d = a" "(a' * d + b') div d = a'"
    using assms(2,3) by simp_all
  with assms(1) have "a = a'" by simp
  with assms(1) show ?thesis by simp
qed

lemma resample_integer_opaque:
  assumes col: "premultiplied color = (256, 256, 256, 256)"
    and stride: "unat dwidth \<le> unat drowpixels"
    and dlen: "unat dheight * unat drowpixels \<le> length dest"
    and addr: "length dest \<le> 2 ^ 32"
    and sidx: "\<And>y x. y < dheight \<Longrightarrow> x < dwidth \<Longrightarrow>
        unat (drop_bit 12 (y * dy) * srowpixels + drop_bit 12 (x * dx)) < length source"
  shows "\<exists>dest'. resample_argb_bitmap_integer dest drowpixels dwidth dheight
                     source srowpixels swidth sheight color dx dy = Inr dest'
           \<and> length dest' = length dest
           \<and> (\<forall>y. y < dheight \<longrightarrow> (\<forall>x. x < dwidth \<longrightarrow>
                 dest' ! (unat y * unat drowpixels + unat x)
                   = source ! unat (drop_bit 12 (y * dy) * srowpixels + drop_bit 12 (x * dx))))"
proof -
  have wrap: "unat dheight * unat drowpixels \<le> 2 ^ 32"
    using dlen addr by linarith
  note ix = index_no_wrap [OF _ _ stride wrap]
  have "\<exists>dest'. for_each_pixel dwidth dheight
            (integer_pixel source srowpixels (256, 256, 256, 256) dx dy drowpixels) dest = Inr dest'
          \<and> length dest' = length dest
          \<and> (\<forall>y. y < dheight \<longrightarrow> (\<forall>x. x < dwidth \<longrightarrow>
                dest' ! (unat y * unat drowpixels + unat x)
                  = source ! unat (drop_bit 12 (y * dy) * srowpixels + drop_bit 12 (x * dx))))"
  proof (rule for_each_pixel_writes)
    fix y x and d :: "u32 list"
    assume yx: "y < dheight" "x < dwidth" and d: "length d = length dest"
    have "unat (y * drowpixels + x) < length d"
      using ix [OF yx] dlen d by simp
    from integer_pixel_opaque [OF sidx [OF yx] this]
    show "integer_pixel source srowpixels (256, 256, 256, 256) dx dy drowpixels y x d
        = Inr (d[unat y * unat drowpixels + unat x :=
                   source ! unat (drop_bit 12 (y * dy) * srowpixels + drop_bit 12 (x * dx))])"
      by (simp add: ix(1) [OF yx])
  next
    fix y x
    assume "y < dheight" "x < dwidth"
    from ix(2) [OF this] dlen show "unat y * unat drowpixels + unat x < length dest"
      by linarith
  next
    fix y x y' x'
    assume a: "y < dheight" "x < dwidth" "y' < dheight" "x' < dwidth"
      "unat y * unat drowpixels + unat x = unat y' * unat drowpixels + unat x'"
    have "unat x < unat drowpixels" "unat x' < unat drowpixels"
      using a(2,4) stride by (simp_all add: word_less_nat_alt)
    from row_col_unique [OF a(5) this] show "y = y' \<and> x = x'"
      by (simp add: word_unat_eq_iff)
  qed simp
  then show ?thesis
    by (simp add: resample_argb_bitmap_integer_def col)
qed

text \<open>The tint with \<open>r = g = b = a = 1.0\<close>; its premultiplied factors are all 256.\<close>

definition opaque_white :: render_color where
  "opaque_white = \<lparr>color_a = 1, color_r = 1, color_g = 1, color_b = 1\<rparr>"

lemma premultiplied_opaque_white: "premultiplied opaque_white = (256, 256, 256, 256)"
proof -
  have "to_float 1 = 1"
    using to_float_exact [of 1 0] by simp
  moreover have "to_float 256 = 256"
    using to_float_exact [of 256 0] by simp
  ultimately show ?thesis
    by (simp add: premultiplied_def opaque_white_def u32_of_float_def)
qed

lemma unit_step:
  assumes "0 < unat (s::u32)" and "unat s < 2 ^ 20"
  shows "ceil_float_div (push_bit 12 s) s = 0x1000"
proof -
  have n: "unat (push_bit 12 s) = 4096 * unat s"
    using assms(2) by (simp add: unat_shifted_size)
  have "to_float (real (unat s * 2 ^ 12)) = real (unat s * 2 ^ 12)"
    by (rule to_float_of_nat_shifted) (use assms(2) in simp)
  then have a: "to_float (real (unat (push_bit 12 s))) = real (unat (push_bit 12 s))"
    by (simp add: n mult.commute del: of_nat_unat of_nat_mult)
  have b: "to_float (real (unat s)) = real (unat s)"
    by (rule to_float_of_nat) (use assms(2) in simp)
  have "ceil_float_div (push_bit 12 s) s = of_nat 4096"
    by (rule ceil_float_div_exact [OF n _ _ a b]) (use assms(1) in simp_all)
  then show ?thesis by simp
qed

lemma unshift_coordinate:
  assumes "unat (y::u32) < 2 ^ 20"
  shows "drop_bit 12 (y * 0x1000) = y"
proof -
  have "unat y * unat (0x1000::u32) < 2 ^ 32"
    using assms by simp
  then have "unat (y * 0x1000) = unat y * 4096"
    using unat_mult_small [of y "0x1000"] by simp
  then have "unat (drop_bit 12 (y * 0x1000)) = unat y"
    by (simp add: unat_drop12)
  then show ?thesis
    by (simp only: word_unat_eq_iff)
qed

text \<open>
  Claim C2, for bitmaps of fewer than \<open>2^20\<close> pixels on each axis whose pixels a \<open>u32\<close>
  index reaches (stride at least the width, \<open>height * stride\<close> pixels of storage at most
  \<open>2^32\<close>).  Resampling a source onto a destination of the same width and height with the
  opaque colourless tint and without the force flag returns normally, and every
  destination pixel \<open>(x, y)\<close> is then the source pixel \<open>(x, y)\<close>.
\<close>

theorem resample_same_size_identity:
  assumes size: "width dest = width source" "height dest = height source"
    and small: "unat (width source) < 2 ^ 20" "unat (height source) < 2 ^ 20"
    and dbase: "base dest = Some dpix"
    and dstride: "unat (width dest) \<le> unat (rowpixels dest)"
    and dlen: "unat (height dest) * unat (rowpixels dest) \<le> length dpix" "length dpix \<le> 2 ^ 32"
    and sbase: "base source = Some spix"
    and sstride: "unat (width source) \<le> unat (rowpixels source)"
    and slen: "unat (height source) * unat (rowpixels source) \<le> length spix" "length spix \<le> 2 ^ 32"
  shows "\<exists>dest'. render_resample_argb_bitmap_hq dest source opaque_white False = Inr dest'
           \<and> width dest' = width dest \<and> height dest' = height dest \<and> rowpixels dest' = rowpixels dest
           \<and> (\<forall>y<unat (height dest). \<forall>x<unat (width dest). bitmap_pix dest' y x = bitmap_pix source y x)"
proof (cases "width dest = 0 \<or> height dest = 0")
  case True
  then have "render_resample_argb_bitmap_hq_select (width dest) (height dest) (width source) (height source) False
      = Inr No_resample"
    by (simp add: render_resample_argb_bitmap_hq_select_def)
  then have "render_resample_argb_bitmap_hq dest source opaque_white False = Inr dest"
    by (simp add: render_resample_argb_bitmap_hq_def dbase sbase)
  moreover have "\<forall>y<unat (height dest). \<forall>x<unat (width dest). bitmap_pix dest y x = bitmap_pix source y x"
    using True by auto
  ultimately show ?thesis by simp
next
  case False
  define w h where "w = width source" and "h = height source"
  have wh: "width dest = w" "height dest = h" "width source = w" "height source = h"
    by (simp_all add: w_def h_def size)
  have pos: "0 < unat w" "0 < unat h" "w \<noteq> 0" "h \<noteq> 0"
    using False by (auto simp: wh unat_gt_0)
  have lt: "unat w < 2 ^ 20" "unat h < 2 ^ 20"
    using small by (simp_all add: wh)
  have sel: "render_resample_argb_bitmap_hq_select w h w h False = Inr (Resample_integer 0x1000 0x1000)"
    using render_resample_select [OF pos(3,4) pos(1) lt(1) pos(2) lt(2), of False] pos(1,2)
    by (simp add: unit_step [OF pos(1) lt(1)] unit_step [OF pos(2) lt(2)])
  have swrap: "unat h * unat (rowpixels source) \<le> 2 ^ 32"
    using slen by (simp add: wh)
  have "\<exists>dpix'. resample_argb_bitmap_integer dpix (rowpixels dest) w h
                     spix (rowpixels source) w h opaque_white 0x1000 0x1000 = Inr dpix'
           \<and> length dpix' = length dpix
           \<and> (\<forall>y. y < h \<longrightarrow> (\<forall>x. x < w \<longrightarrow>
                 dpix' ! (unat y * unat (rowpixels dest) + unat x)
                   = spix ! unat (drop_bit 12 (y * 0x1000) * rowpixels source + drop_bit 12 (x * 0x1000))))"
  proof (rule resample_integer_opaque [OF premultiplied_opaque_white])
    show "unat w \<le> unat (rowpixels dest)" using dstride by (simp add: wh)
    show "unat h * unat (rowpixels dest) \<le> length dpix" using dlen(1) by (simp add: wh)
    show "length dpix \<le> 2 ^ 32" by (rule dlen(2))
  next
    fix y x
    assume yx: "y < h" "x < w"
    then have "unat y < 2 ^ 20" "unat x < 2 ^ 20"
      using lt by (simp_all add: word_less_nat_alt)
    then have u: "drop_bit 12 (y * 0x1000) = y" "drop_bit 12 (x * 0x1000) = x"
      by (simp_all add: unshift_coordinate)
    have "unat w \<le> unat (rowpixels source)" using sstride by (simp add: wh)
    from index_no_wrap [OF yx this swrap] slen(1)
    show "unat (drop_bit 12 (y * 0x1000) * rowpixels source + drop_bit 12 (x * 0x1000)) < length spix"
      by (simp add: u wh)
  qed
  then obtain dpix' where r: "resample_argb_bitmap_integer dpix (rowpixels dest) w h
                     spix (rowpixels source) w h opaque_white 0x1000 0x1000 = Inr dpix'"
    and px: "\<And>y x. y < h \<Longrightarrow> x < w \<Longrightarrow> dpix' ! (unat y * unat (rowpixels dest) + unat x)
                   = spix ! unat (drop_bit 12 (y * 0x1000) * rowpixels source + drop_bit 12 (x * 0x1000))"
    by blast
  have res: "render_resample_argb_bitmap_hq dest source opaque_white False = Inr (dest\<lparr>base := Some dpix'\<rparr>)"
    by (simp add: render_resample_argb_bitmap_hq_def wh sel dbase sbase r)
  have "bitmap_pix (dest\<lparr>base := Some dpix'\<rparr>) y x = bitmap_pix source y x" if yx: "y < unat h" "x < unat w" for y x
  proof -
    have b: "y < 2 ^ 32" "x < 2 ^ 32" using yx lt by simp_all
    then have u: "unat (of_nat y :: u32) = y" "unat (of_nat x :: u32) = x"
      by (simp_all add: unat_of_nat_u32)
    then have l: "(of_nat y :: u32) < h" "(of_nat x :: u32) < w"
      using yx by (simp_all add: word_less_nat_alt)
    have "unat (of_nat y :: u32) < 2 ^ 20" "unat (of_nat x :: u32) < 2 ^ 20"
      using u yx lt by simp_all
    then have s: "drop_bit 12 ((of_nat y :: u32) * 0x1000) = of_nat y" "drop_bit 12 ((of_nat x :: u32) * 0x1000) = of_nat x"
      by (simp_all add: unshift_coordinate)
    have "unat w \<le> unat (rowpixels source)" using sstride by (simp add: wh)
    from index_no_wrap(1) [OF l this swrap]
    have i: "unat ((of_nat y :: u32) * rowpixels source + of_nat x) = y * unat (rowpixels source) + x"
      by (simp add: u)
    from px [OF l] show ?thesis
      by (simp add: bitmap_pix_def sbase s i u)
  qed
  with res show ?thesis
    by (simp add: wh)
qed

theorem resample_same_size_identity_witness:
  "width \<lparr>base = Some [0], width = 1, height = 1, rowpixels = 1\<rparr>
     = width \<lparr>base = Some [0xFF102030], width = 1, height = 1, rowpixels = 1\<rparr>
   \<and> unat (1::u32) < 2 ^ 20 \<and> unat (1::u32) \<le> unat (1::u32)
   \<and> unat (1::u32) * unat (1::u32) \<le> length [0xFF102030::u32] \<and> length [0xFF102030::u32] \<le> 2 ^ 32
   \<and> (\<exists>dest'. render_resample_argb_bitmap_hq \<lparr>base = Some [0], width = 1, height = 1, rowpixels = 1\<rparr>
          \<lparr>base = Some [0xFF102030], width = 1, height = 1, rowpixels = 1\<rparr> opaque_white False = Inr dest'
        \<and> bitmap_pix dest' 0 0 = 0xFF102030)"
  using resample_same_size_identity [of "\<lparr>base = Some [0], width = 1, height = 1, rowpixels = 1\<rparr>"
      "\<lparr>base = Some [0xFF102030], width = 1, height = 1, rowpixels = 1\<rparr>" "[0]" "[0xFF102030]"]
  by (auto simp: bitmap_pix_def)

text \<open>
  Claim C2 as stated fails for bitmaps of \<open>2^20\<close> pixels on an axis.  A source of 1048576
  by 1 pixels whose first pixel is 0 and whose other pixels are 1, resampled onto a
  destination of the same size: the step \<open>dx\<close> is 0, every destination pixel is the first
  source pixel, and destination pixel (1, 0) is 0 where the source has 1.
\<close>

definition wide_source :: bitmap_argb32 where
  "wide_source = \<lparr>base = Some (0 # replicate 0xFFFFF 1), width = 0x100000, height = 1, rowpixels = 0x100000\<rparr>"

definition wide_dest :: bitmap_argb32 where
  "wide_dest = \<lparr>base = Some (replicate 0x100000 2), width = 0x100000, height = 1, rowpixels = 0x100000\<rparr>"

lemma wide_select:
  "render_resample_argb_bitmap_hq_select 0x100000 1 0x100000 1 False = Inr (Resample_integer 0 0x1000)"
proof -
  have "to_float 0 = 0"
    by (simp add: to_float_def)
  moreover have "to_float 1048576 = 1048576"
    using to_float_exact [of 1048576 0] by simp
  ultimately have z: "ceil_float_div 0 0x100000 = of_nat 0"
    by (intro ceil_float_div_exact) simp_all
  have o: "ceil_float_div 0x1000 1 = 0x1000"
    using unit_step [of 1] by simp
  show ?thesis
    using z o by (simp add: render_resample_argb_bitmap_hq_select_def Let_def shift_wraps del: push_bit_numeral)
qed

lemma wide_resample:
  "resample_argb_bitmap_integer (replicate 0x100000 2) 0x100000 0x100000 1
     (0 # replicate 0xFFFFF 1) 0x100000 0x100000 1 opaque_white 0 0x1000 = Inr (replicate 0x100000 0)"
proof -
  have "\<exists>dest'. resample_argb_bitmap_integer (replicate 0x100000 2) 0x100000 0x100000 1
                     (0 # replicate 0xFFFFF 1) 0x100000 0x100000 1 opaque_white 0 0x1000 = Inr dest'
           \<and> length dest' = length (replicate 0x100000 (2::u32))
           \<and> (\<forall>y::u32. y < 1 \<longrightarrow> (\<forall>x::u32. x < 0x100000 \<longrightarrow>
                 dest' ! (unat y * unat (0x100000::u32) + unat x)
                   = (0 # replicate 0xFFFFF 1) ! unat (drop_bit 12 (y * 0x1000) * 0x100000 + drop_bit 12 (x * 0))))"
    by (rule resample_integer_opaque [OF premultiplied_opaque_white]) simp_all
  then obtain dest' where r: "resample_argb_bitmap_integer (replicate 0x100000 2) 0x100000 0x100000 1
                     (0 # replicate 0xFFFFF 1) 0x100000 0x100000 1 opaque_white 0 0x1000 = Inr dest'"
    and l: "length dest' = 0x100000"
    and p: "\<And>x. x < (0x100000::u32) \<Longrightarrow> dest' ! unat x = 0"
    by auto
  have "dest' = replicate 0x100000 0"
  proof (rule nth_equalityI)
    show "length dest' = length (replicate 0x100000 (0::u32))" by (simp add: l)
    fix i
    assume "i < length dest'"
    then have i: "i < 0x100000" by (simp add: l)
    then have u: "unat (of_nat i :: u32) = i"
      by (simp add: unat_of_nat_u32)
    then have "(of_nat i :: u32) < 0x100000"
      using i by (simp add: word_less_nat_alt)
    from p [OF this] i show "dest' ! i = replicate 0x100000 0 ! i"
      by (simp add: u)
  qed
  with r show ?thesis by simp
qed

theorem resample_wide_not_identity:
  "render_resample_argb_bitmap_hq wide_dest wide_source opaque_white False
     = Inr (wide_dest\<lparr>base := Some (replicate 0x100000 0)\<rparr>)
   \<and> width wide_dest = width wide_source \<and> height wide_dest = height wide_source
   \<and> bitmap_pix (wide_dest\<lparr>base := Some (replicate 0x100000 0)\<rparr>) 0 1 = 0
   \<and> bitmap_pix wide_source 0 1 = 1"
  by (simp add: render_resample_argb_bitmap_hq_def wide_dest_def wide_source_def wide_select wide_resample bitmap_pix_def)

section \<open>Streams\<close>

text \<open>
  Modelled from the spec: \<open>util::random_read\<close> is declared outside the sources at hand.
  A stream has a content and a position; \<open>read\<close> delivers up to the requested number of
  bytes from the position on and advances by what it delivered, \<open>seek(offs, SEEK_SET)\<close>
  sets the position.
\<close>

record random_read =
  content :: "u8 list"
  position :: nat

definition stream_read :: "random_read \<Rightarrow> nat \<Rightarrow> u8 list \<times> random_read" where
  "stream_read file n =
     (let got = take n (drop (position file) (content file))
      in (got, file\<lparr>position := position file + length got\<rparr>))"

definition stream_seek_set :: "random_read \<Rightarrow> nat \<Rightarrow> random_read" where
  "stream_seek_set file offs = file\<lparr>position := offs\<rparr>"


section \<open>The chunked-format adapter\<close>

text \<open>
  Modelled from the spec: \<open>util::png_info\<close> is declared outside the sources at hand.  The
  adapter reads the decoded image bytes, the width and height, the bit depth, the colour type
  (0 grayscale, 2 RGB, 3 palette, 4 grayscale with alpha, 6 RGB with alpha), the interlace
  method and the palette.
\<close>

record png_info =
  png_image :: "u8 list"
  png_width :: u32
  png_height :: u32
  bit_depth :: u8
  color_type :: u8
  interlace_method :: u8
  png_palette :: "u8 list"

text \<open>
  The colour format table and the Adam7 tables of \<open>copy_png_alpha_to_bitmap\<close>, indexed by the
  colour type and by the pass.
\<close>

definition samples :: "u32 list" where
  "samples = [1, 0, 3, 1, 2, 0, 4]"

definition x_bias :: "u32 list" where "x_bias = [7, 3, 3, 1, 1, 0, 0]"
definition y_bias :: "u32 list" where "y_bias = [7, 7, 3, 3, 1, 1, 0]"
definition x_shift :: "nat list" where "x_shift = [3, 3, 2, 2, 1, 1, 0]"
definition y_shift :: "nat list" where "y_shift = [3, 3, 3, 2, 2, 1, 1]"

definition pass_count :: "png_info \<Rightarrow> nat" where
  "pass_count png = (if interlace_method png \<noteq> 0 then 7 else 1)"

definition pass_width :: "png_info \<Rightarrow> nat \<Rightarrow> u32" where
  "pass_width png pass =
     (if interlace_method png \<noteq> 0
      then drop_bit (x_shift ! pass) (png_width png + x_bias ! pass) else png_width png)"

definition pass_height :: "png_info \<Rightarrow> nat \<Rightarrow> u32" where
  "pass_height png pass =
     (if interlace_method png \<noteq> 0
      then drop_bit (y_shift ! pass) (png_height png + y_bias ! pass) else png_height png)"

definition x_trans :: "nat \<Rightarrow> u32 \<Rightarrow> u32" where
  "x_trans pass x = push_bit (x_shift ! pass) x + (push_bit (x_shift ! pass) 1 - x_bias ! pass - 1)"

definition y_trans :: "nat \<Rightarrow> u32 \<Rightarrow> u32" where
  "y_trans pass y = push_bit (y_shift ! pass) y + (push_bit (y_shift ! pass) 1 - y_bias ! pass - 1)"

text \<open>
  A read of \<open>png.image\<close> or \<open>png.palette\<close> outside the bytes is the fault
  \<open>Out_of_bounds\<close>, and so is a pixel of the bitmap outside its storage.
\<close>

definition byte_at :: "u8 list \<Rightarrow> nat \<Rightarrow> fault + u8" where
  "byte_at bytes i = (if i < length bytes then Inr (bytes ! i) else Inl Out_of_bounds)"

definition rgb_bytes :: "u8 list \<Rightarrow> nat \<Rightarrow> fault + u8 \<times> u8 \<times> u8" where
  "rgb_bytes bytes i =
     (case byte_at bytes i of Inl e \<Rightarrow> Inl e | Inr r \<Rightarrow>
     (case byte_at bytes (i + 1) of Inl e \<Rightarrow> Inl e | Inr g \<Rightarrow>
     (case byte_at bytes (i + 2) of Inl e \<Rightarrow> Inl e | Inr b \<Rightarrow> Inr (r, g, b))))"

text \<open>
  The alpha value of the pixel at \<open>src\<close>, for each of the five branches on the colour type,
  and the number of bytes \<open>src\<close> advances by.  \<open>brightness\<close> is \<open>rgb_t::brightness\<close> of the
  colour with the three channels given; the branches for RGB and for RGB with alpha both
  take it of \<open>src[0]\<close>, \<open>src[1]\<close>, \<open>src[2]\<close>.
\<close>

definition derived_alpha :: "(u8 \<Rightarrow> u8 \<Rightarrow> u8 \<Rightarrow> u8) \<Rightarrow> png_info \<Rightarrow> nat \<Rightarrow> fault + u8" where
  "derived_alpha brightness png src =
     (if color_type png = 3 then
        case byte_at (png_image png) src of
          Inl e \<Rightarrow> Inl e
        | Inr entry \<Rightarrow>
           (case rgb_bytes (png_palette png) (unat entry * 3) of
              Inl e \<Rightarrow> Inl e
            | Inr (r, g, b) \<Rightarrow> Inr (brightness r g b))
      else if color_type png = 0 then byte_at (png_image png) src
      else if color_type png = 4 then byte_at (png_image png) src
      else
        case rgb_bytes (png_image png) src of
          Inl e \<Rightarrow> Inl e
        | Inr (r, g, b) \<Rightarrow> Inr (brightness r g b))"

definition src_step :: "png_info \<Rightarrow> nat" where
  "src_step png =
     (if color_type png = 3 then 1 else if color_type png = 0 then 1
      else if color_type png = 4 then 2 else if color_type png = 2 then 3 else 4)"

text \<open>
  The body of the inner loop: \<open>dest\<close> is the pixel \<open>(y, x)\<close> of the bitmap, through
  \<open>y_trans\<close> and \<open>x_trans\<close> for an interlaced image; its alpha channel is replaced and
  the value is accumulated by bitwise AND.
\<close>

definition alpha_dest :: "png_info \<Rightarrow> u32 \<Rightarrow> nat \<Rightarrow> u32 \<Rightarrow> u32 \<Rightarrow> nat" where
  "alpha_dest png rowpix pass y x =
     (if interlace_method png \<noteq> 0
      then unat (y_trans pass y) * unat rowpix + unat (x_trans pass x)
      else unat y * unat rowpix + unat x)"

definition alpha_pixel ::
    "(u8 \<Rightarrow> u8 \<Rightarrow> u8 \<Rightarrow> u8) \<Rightarrow> png_info \<Rightarrow> u32 \<Rightarrow> nat \<Rightarrow> u32 \<Rightarrow> u32 \<Rightarrow> nat \<times> u8 \<times> u32 list
       \<Rightarrow> fault + nat \<times> u8 \<times> u32 list" where
  "alpha_pixel brightness png rowpix pass y x state =
     (let (src, accumalpha, pixels) = state;
          dest = alpha_dest png rowpix pass y x
      in if dest < length pixels then
           let pixel = pixels ! dest
           in case derived_alpha brightness png src of
                Inl e \<Rightarrow> Inl e
              | Inr alpha \<Rightarrow>
                  Inr (src + src_step png, accumalpha AND alpha,
                       pixels[dest := rgb_t alpha (rgb_r pixel) (rgb_g pixel) (rgb_b pixel)])
         else Inl Out_of_bounds)"

definition pass_rowbytes :: "png_info \<Rightarrow> nat \<Rightarrow> fault + u32" where
  "pass_rowbytes png pass =
     (if unat (color_type png) < length samples
      then Inr (drop_bit 3 (pass_width png pass * (samples ! unat (color_type png)) * ucast (bit_depth png) + 7))
      else Inl Out_of_bounds)"

text \<open>
  \<open>pass_start png pass\<close> is the value \<open>pass_offset[pass]\<close> has when the pass begins.
\<close>

primrec pass_start :: "png_info \<Rightarrow> nat \<Rightarrow> u32" where
  "pass_start png 0 = 0"
| "pass_start png (Suc pass) =
     pass_start png pass
       + pass_height png pass * ((case pass_rowbytes png pass of Inl e \<Rightarrow> 0 | Inr rowbytes \<Rightarrow> rowbytes) + 1)"

text \<open>
  One iteration of the loop over the passes, and the function: the state is
  \<open>pass_offset\<close>, \<open>accumalpha\<close> and the pixels of the bitmap.
\<close>

definition alpha_pass ::
    "(u8 \<Rightarrow> u8 \<Rightarrow> u8 \<Rightarrow> u8) \<Rightarrow> png_info \<Rightarrow> u32 \<Rightarrow> nat \<Rightarrow> u32 list \<times> u8 \<times> u32 list
       \<Rightarrow> fault + u32 list \<times> u8 \<times> u32 list" where
  "alpha_pass brightness png rowpix pass state =
     (let (pass_offset, accumalpha, pixels) = state
      in case pass_rowbytes png pass of
           Inl e \<Rightarrow> Inl e
         | Inr rowbytes \<Rightarrow>
            (let pass_offset = pass_offset[pass + 1 := pass_offset ! pass + pass_height png pass * (rowbytes + 1)];
                 src = unat (pass_offset ! pass)
             in case fold_fault
                       (\<lambda>y. fold_fault (\<lambda>x. alpha_pixel brightness png rowpix pass y x)
                              (u32_upto (pass_width png pass)))
                       (u32_upto (pass_height png pass)) (src, accumalpha, pixels) of
                  Inl e \<Rightarrow> Inl e
                | Inr (src, accumalpha, pixels) \<Rightarrow> Inr (pass_offset, accumalpha, pixels)))"

definition copy_png_alpha_to_bitmap ::
    "(u8 \<Rightarrow> u8 \<Rightarrow> u8 \<Rightarrow> u8) \<Rightarrow> bitmap_argb32 \<Rightarrow> png_info \<Rightarrow> fault + bool \<times> bitmap_argb32" where
  "copy_png_alpha_to_bitmap brightness bitmap png =
     (case fold_fault (alpha_pass brightness png (rowpixels bitmap)) [0..<pass_count png]
             (replicate 8 0, 0xff, case base bitmap of None \<Rightarrow> [] | Some pixels \<Rightarrow> pixels) of
        Inl e \<Rightarrow> Inl e
      | Inr (pass_offset, accumalpha, pixels) \<Rightarrow>
          Inr (accumalpha \<noteq> 0xff, bitmap\<lparr>base := map_option (\<lambda>old. pixels) (base bitmap)\<rparr>))"

text \<open>
  Modelled from the spec: the external reader (\<open>read_file\<close>, \<open>expand_buffer_8bit\<close> and
  \<open>copy_to_bitmap\<close>, each failing or not) and \<open>rgb_t::brightness\<close> are defined outside the
  sources at hand and are parameters here.  \<open>copy_to_bitmap\<close> returns whether it failed, the
  bitmap and the alpha flag.  The result of \<open>render_load_png\<close> is the flag returned, the
  bitmap and the lines written to the error log.
\<close>

record png_library =
  read_file :: "random_read \<Rightarrow> png_info option"
  expand_buffer_8bit :: "png_info \<Rightarrow> png_info option"
  copy_to_bitmap :: "png_info \<Rightarrow> bool \<times> bitmap_argb32 \<times> bool"
  rgb_brightness :: "u8 \<Rightarrow> u8 \<Rightarrow> u8 \<Rightarrow> u8"

definition render_load_png ::
    "png_library \<Rightarrow> bitmap_argb32 \<Rightarrow> random_read \<Rightarrow> bool \<Rightarrow> fault + bool \<times> bitmap_argb32 \<times> string list" where
  "render_load_png lib bitmap file load_as_alpha_to_existing =
     (let bitmap = (if \<not> load_as_alpha_to_existing then bitmap_reset else bitmap)
      in case read_file lib file of
           None \<Rightarrow> Inr (False, bitmap, [''Error reading PNG file''])
         | Some png \<Rightarrow>
            (case expand_buffer_8bit lib png of
               None \<Rightarrow> Inr (False, bitmap, [''Error upsampling PNG bitmap''])
             | Some png \<Rightarrow>
                 if \<not> load_as_alpha_to_existing then
                   (case copy_to_bitmap lib png of
                      (failed, bitmap, hasalpha) \<Rightarrow>
                        if failed then Inr (False, bitmap, [''Error copying PNG bitmap to MAME bitmap''])
                        else Inr (hasalpha, bitmap, []))
                 else if png_width png = width bitmap \<and> png_height png = height bitmap then
                   if bit_depth png > 8 then Inr (False, bitmap, [''Unsupported bit depth (8 bit max)''])
                   else
                     (case copy_png_alpha_to_bitmap (rgb_brightness lib) bitmap png of
                        Inl e \<Rightarrow> Inl e
                      | Inr (hasalpha, bitmap) \<Rightarrow> Inr (hasalpha, bitmap, []))
                 else Inr (False, bitmap, [])))"

text \<open>
  The alpha value derived for the RGB pixel whose first byte is at offset \<open>i\<close>: the
  brightness of the bytes \<open>i\<close>, \<open>i + 1\<close> and \<open>i + 2\<close>.
\<close>

definition alpha_at :: "(u8 \<Rightarrow> u8 \<Rightarrow> u8 \<Rightarrow> u8) \<Rightarrow> png_info \<Rightarrow> nat \<Rightarrow> u8" where
  "alpha_at brightness png i =
     brightness (png_image png ! i) (png_image png ! (i + 1)) (png_image png ! (i + 2))"

text \<open>
  Examples: a brightness that is a weighted mean of the three channels, a reader that
  decodes every stream to a given image, an image of two white pixels with the alpha bytes
  0x00 and 0x80, and an image of one black pixel with the alpha byte 0xFF.
\<close>

definition weighted_brightness :: "u8 \<Rightarrow> u8 \<Rightarrow> u8 \<Rightarrow> u8" where
  "weighted_brightness r g b = of_nat ((unat r * 222 + unat g * 707 + unat b * 71) div 1000)"

definition decoded_as :: "png_info \<Rightarrow> png_library" where
  "decoded_as png =
     \<lparr>read_file = (\<lambda>file. Some png), expand_buffer_8bit = Some,
      copy_to_bitmap = (\<lambda>png. (True, bitmap_reset, False)), rgb_brightness = weighted_brightness\<rparr>"

definition translucent_white_png :: png_info where
  "translucent_white_png =
     \<lparr>png_image = [0xFF, 0xFF, 0xFF, 0x00, 0xFF, 0xFF, 0xFF, 0x80], png_width = 2, png_height = 1,
      bit_depth = 8, color_type = 6, interlace_method = 0, png_palette = []\<rparr>"

definition two_pixel_bitmap :: bitmap_argb32 where
  "two_pixel_bitmap = \<lparr>base = Some [0x00102030, 0x80405060], width = 2, height = 1, rowpixels = 2\<rparr>"

definition opaque_black_png :: png_info where
  "opaque_black_png =
     \<lparr>png_image = [0x00, 0x00, 0x00, 0xFF], png_width = 1, png_height = 1,
      bit_depth = 8, color_type = 6, interlace_method = 0, png_palette = []\<rparr>"

definition one_pixel_bitmap :: bitmap_argb32 where
  "one_pixel_bitmap = \<lparr>base = Some [0xFF102030], width = 1, height = 1, rowpixels = 1\<rparr>"

subsection \<open>The loops of the alpha overlay\<close>

lemma fold_fault_append:
  "fold_fault f (xs @ ys) s = (case fold_fault f xs s of Inl e \<Rightarrow> Inl e | Inr s' \<Rightarrow> fold_fault f ys s')"
  by (induction xs arbitrary: s) (auto split: sum.splits)

lemma fold_fault_steps:
  assumes "\<And>i s. i < m \<Longrightarrow> Inv i s \<Longrightarrow> \<exists>s'. f (g i) s = Inr s' \<and> Inv (Suc i) s'" and "Inv 0 s0"
  shows "\<exists>s'. fold_fault f (map g [0..<m]) s0 = Inr s' \<and> Inv m s'"
  using assms(1)
proof (induction m)
  case 0
  show ?case using assms(2) by simp
next
  case (Suc m)
  have "\<exists>s'. fold_fault f (map g [0..<m]) s0 = Inr s' \<and> Inv m s'"
    by (rule Suc.IH) (use Suc.prems in simp)
  then obtain s1 where s1: "fold_fault f (map g [0..<m]) s0 = Inr s1" "Inv m s1"
    by blast
  from Suc.prems [of m s1] s1(2) obtain s2 where "f (g m) s1 = Inr s2" "Inv (Suc m) s2"
    by auto
  with s1 show ?case
    by (simp add: fold_fault_append)
qed

lemma fold_fault_u32_upto:
  assumes "\<And>i s. i < unat n \<Longrightarrow> Inv i s \<Longrightarrow> \<exists>s'. f (of_nat i) s = Inr s' \<and> Inv (Suc i) s'" and "Inv 0 s0"
  shows "\<exists>s'. fold_fault f (u32_upto n) s0 = Inr s' \<and> Inv (unat n) s'"
  unfolding u32_upto_def using assms by (rule fold_fault_steps)

lemma fold_fault_upt:
  assumes "\<And>i s. i < m \<Longrightarrow> Inv i s \<Longrightarrow> \<exists>s'. f i s = Inr s' \<and> Inv (Suc i) s'" and "Inv 0 s0"
  shows "\<exists>s'. fold_fault f [0..<m] s0 = Inr s' \<and> Inv m s'"
  using fold_fault_steps [of m Inv f "\<lambda>i. i" s0] assms by simp

lemma and_opaque: "(a::u8) AND b = 0xff \<longleftrightarrow> a = 0xff \<and> b = 0xff"
proof -
  have "(0xff::u8) = - 1" by simp
  then show ?thesis
    by (simp only: and_eq_minus_1_iff)
qed

lemma alpha_pixel_rgb:
  assumes "color_type png \<noteq> 3" "color_type png \<noteq> 0" "color_type png \<noteq> 4"
    and "src + 2 < length (png_image png)"
    and "alpha_dest png rowpix pass y x < length pixels"
  shows "\<exists>pixels'. alpha_pixel brightness png rowpix pass y x (src, accumalpha, pixels)
           = Inr (src + src_step png, accumalpha AND alpha_at brightness png src, pixels')
         \<and> length pixels' = length pixels"
  using assms
  by (simp add: alpha_pixel_def derived_alpha_def rgb_bytes_def byte_at_def alpha_at_def Let_def)

lemma all_less_block:
  "(\<forall>j < w * Suc y. P j) \<longleftrightarrow> (\<forall>j < w * y. P j) \<and> (\<forall>x < w. P (w * y + x))"
proof
  assume a: "\<forall>j < w * Suc y. P j"
  show "(\<forall>j < w * y. P j) \<and> (\<forall>x < w. P (w * y + x))"
    using a by simp
next
  assume a: "(\<forall>j < w * y. P j) \<and> (\<forall>x < w. P (w * y + x))"
  show "\<forall>j < w * Suc y. P j"
  proof (intro allI impI)
    fix j
    assume j: "j < w * Suc y"
    show "P j"
    proof (cases "j < w * y")
      case True
      with a show ?thesis by simp
    next
      case False
      then have "j - w * y < w" "j = w * y + (j - w * y)"
        using j by simp_all
      with a show ?thesis by metis
    qed
  qed
qed

lemma alpha_row:
  assumes ct: "color_type png \<noteq> 3" "color_type png \<noteq> 0" "color_type png \<noteq> 4"
    and reads: "\<And>x. x < unat w \<Longrightarrow> src + src_step png * x + 2 < length (png_image png)"
    and writes: "\<And>x. x < unat w \<Longrightarrow> alpha_dest png rowpix pass y (of_nat x) < length pixels"
  shows "\<exists>acc' pixels'.
      fold_fault (\<lambda>x. alpha_pixel brightness png rowpix pass y x) (u32_upto w) (src, acc, pixels)
        = Inr (src + src_step png * unat w, acc', pixels')
      \<and> length pixels' = length pixels
      \<and> (acc' = 0xff \<longleftrightarrow> acc = 0xff \<and> (\<forall>x < unat w. alpha_at brightness png (src + src_step png * x) = 0xff))"
proof -
  define Inv where "Inv i st \<longleftrightarrow>
      (case st of (s, a, p) \<Rightarrow> s = src + src_step png * i \<and> length p = length pixels
        \<and> (a = 0xff \<longleftrightarrow> acc = 0xff \<and> (\<forall>x < i. alpha_at brightness png (src + src_step png * x) = 0xff)))"
    for i :: nat and st :: "nat \<times> u8 \<times> u32 list"
  have "\<exists>s'. fold_fault (\<lambda>x. alpha_pixel brightness png rowpix pass y x) (u32_upto w) (src, acc, pixels) = Inr s'
      \<and> Inv (unat w) s'"
  proof (rule fold_fault_u32_upto)
    show "Inv 0 (src, acc, pixels)" by (simp add: Inv_def)
  next
    fix i st
    assume i: "i < unat w" and inv: "Inv i st"
    obtain s a p where st: "st = (s, a, p)" by (cases st)
    from inv st have s: "s = src + src_step png * i" and p: "length p = length pixels"
      and a: "a = 0xff \<longleftrightarrow> acc = 0xff \<and> (\<forall>x < i. alpha_at brightness png (src + src_step png * x) = 0xff)"
      by (simp_all add: Inv_def)
    have "s + 2 < length (png_image png)"
      using reads [OF i] by (simp add: s)
    moreover have "alpha_dest png rowpix pass y (of_nat i) < length p"
      using writes [OF i] by (simp add: p)
    ultimately obtain p' where step: "alpha_pixel brightness png rowpix pass y (of_nat i) (s, a, p)
           = Inr (s + src_step png, a AND alpha_at brightness png s, p')" and p': "length p' = length p"
      using alpha_pixel_rgb [OF ct, of s rowpix pass y "of_nat i" p brightness a] by blast
    have "Inv (Suc i) (s + src_step png, a AND alpha_at brightness png s, p')"
      using a by (auto simp: Inv_def s p p' and_opaque less_Suc_eq)
    with step st show "\<exists>s'. alpha_pixel brightness png rowpix pass y (of_nat i) st = Inr s' \<and> Inv (Suc i) s'"
      by blast
  qed
  then show ?thesis
    by (auto simp: Inv_def)
qed

lemma alpha_rows:
  assumes ct: "color_type png \<noteq> 3" "color_type png \<noteq> 0" "color_type png \<noteq> 4"
    and reads: "\<And>j. j < unat w * unat h \<Longrightarrow> src + src_step png * j + 2 < length (png_image png)"
    and writes: "\<And>y x. y < unat h \<Longrightarrow> x < unat w
        \<Longrightarrow> alpha_dest png rowpix pass (of_nat y) (of_nat x) < length pixels"
  shows "\<exists>src' acc' pixels'.
      fold_fault (\<lambda>y. fold_fault (\<lambda>x. alpha_pixel brightness png rowpix pass y x) (u32_upto w))
          (u32_upto h) (src, acc, pixels)
        = Inr (src', acc', pixels')
      \<and> length pixels' = length pixels
      \<and> (acc' = 0xff \<longleftrightarrow>
           acc = 0xff \<and> (\<forall>j < unat w * unat h. alpha_at brightness png (src + src_step png * j) = 0xff))"
proof -
  define Inv where "Inv i st \<longleftrightarrow>
      (case st of (s, a, p) \<Rightarrow> s = src + src_step png * (unat w * i) \<and> length p = length pixels
        \<and> (a = 0xff \<longleftrightarrow> acc = 0xff \<and> (\<forall>j < unat w * i. alpha_at brightness png (src + src_step png * j) = 0xff)))"
    for i :: nat and st :: "nat \<times> u8 \<times> u32 list"
  have "\<exists>s'. fold_fault (\<lambda>y. fold_fault (\<lambda>x. alpha_pixel brightness png rowpix pass y x) (u32_upto w))
          (u32_upto h) (src, acc, pixels) = Inr s' \<and> Inv (unat h) s'"
  proof (rule fold_fault_u32_upto)
    show "Inv 0 (src, acc, pixels)" by (simp add: Inv_def)
  next
    fix i st
    assume i: "i < unat h" and inv: "Inv i st"
    obtain s a p where st: "st = (s, a, p)" by (cases st)
    from inv st have s: "s = src + src_step png * (unat w * i)" and p: "length p = length pixels"
      and a: "a = 0xff \<longleftrightarrow> acc = 0xff \<and> (\<forall>j < unat w * i. alpha_at brightness png (src + src_step png * j) = 0xff)"
      by (simp_all add: Inv_def)
    have inside: "unat w * i + x < unat w * unat h" if "x < unat w" for x
    proof -
      have "unat w * i + x < unat w * Suc i" using that by simp
      also have "\<dots> \<le> unat w * unat h" using i by (intro mult_le_mono2) simp
      finally show ?thesis .
    qed
    have r: "s + src_step png * x + 2 < length (png_image png)" if "x < unat w" for x
      using reads [OF inside [OF that]] by (simp add: s distrib_left)
    have wr: "alpha_dest png rowpix pass (of_nat i) (of_nat x) < length p" if "x < unat w" for x
      using writes [OF i that] by (simp add: p)
    from alpha_row [OF ct r wr, where brightness = brightness and acc = a]
    obtain a' p' where row: "fold_fault (\<lambda>x. alpha_pixel brightness png rowpix pass (of_nat i) x) (u32_upto w) (s, a, p)
        = Inr (s + src_step png * unat w, a', p')" and p': "length p' = length p"
      and a': "a' = 0xff \<longleftrightarrow> a = 0xff \<and> (\<forall>x < unat w. alpha_at brightness png (s + src_step png * x) = 0xff)"
      by blast
    have e: "s + src_step png * x = src + src_step png * (unat w * i + x)" for x
      by (simp add: s distrib_left)
    have "a' = 0xff \<longleftrightarrow> acc = 0xff
        \<and> ((\<forall>j < unat w * i. alpha_at brightness png (src + src_step png * j) = 0xff)
          \<and> (\<forall>x < unat w. alpha_at brightness png (src + src_step png * (unat w * i + x)) = 0xff))"
      using a a' unfolding e by blast
    then have "a' = 0xff \<longleftrightarrow> acc = 0xff
        \<and> (\<forall>j < unat w * Suc i. alpha_at brightness png (src + src_step png * j) = 0xff)"
      by (simp only: all_less_block [where P = "\<lambda>j. alpha_at brightness png (src + src_step png * j) = 0xff"])
    moreover have "s + src_step png * unat w = src + src_step png * (unat w * Suc i)"
      by (simp add: s distrib_left)
    ultimately have "Inv (Suc i) (s + src_step png * unat w, a', p')"
      unfolding Inv_def by (simp add: p p')
    with row st show "\<exists>s'. fold_fault (\<lambda>x. alpha_pixel brightness png rowpix pass (of_nat i) x) (u32_upto w) st = Inr s'
        \<and> Inv (Suc i) s'"
      by blast
  qed
  then show ?thesis
    by (auto simp: Inv_def)
qed

lemma alpha_passes:
  assumes ct: "color_type png \<noteq> 3" "color_type png \<noteq> 0" "color_type png \<noteq> 4"
    and tab: "unat (color_type png) < length samples"
    and reads: "\<And>q j. q < pass_count png \<Longrightarrow> j < unat (pass_width png q) * unat (pass_height png q)
        \<Longrightarrow> unat (pass_start png q) + src_step png * j + 2 < length (png_image png)"
    and writes: "\<And>q y x. q < pass_count png \<Longrightarrow> y < unat (pass_height png q) \<Longrightarrow> x < unat (pass_width png q)
        \<Longrightarrow> alpha_dest png rowpix q (of_nat y) (of_nat x) < length pixels"
  shows "\<exists>offs acc pixels'.
      fold_fault (alpha_pass brightness png rowpix) [0..<pass_count png] (replicate 8 0, 0xff, pixels)
        = Inr (offs, acc, pixels')
      \<and> length pixels' = length pixels
      \<and> (acc = 0xff \<longleftrightarrow>
           (\<forall>q < pass_count png. \<forall>j < unat (pass_width png q) * unat (pass_height png q).
              alpha_at brightness png (unat (pass_start png q) + src_step png * j) = 0xff))"
proof -
  define Q where "Q q \<longleftrightarrow> (\<forall>j < unat (pass_width png q) * unat (pass_height png q).
      alpha_at brightness png (unat (pass_start png q) + src_step png * j) = 0xff)" for q
  define Inv where "Inv i st \<longleftrightarrow>
      (case st of (offs, a, p) \<Rightarrow> length offs = 8 \<and> offs ! i = pass_start png i \<and> length p = length pixels
        \<and> (a = 0xff \<longleftrightarrow> (\<forall>q < i. Q q)))"
    for i :: nat and st :: "u32 list \<times> u8 \<times> u32 list"
  have count: "pass_count png \<le> 7"
    by (simp add: pass_count_def)
  have "\<exists>s'. fold_fault (alpha_pass brightness png rowpix) [0..<pass_count png] (replicate 8 0, 0xff, pixels) = Inr s'
      \<and> Inv (pass_count png) s'"
  proof (rule fold_fault_upt)
    show "Inv 0 (replicate 8 0, 0xff, pixels)" by (simp add: Inv_def)
  next
    fix i st
    assume i: "i < pass_count png" and inv: "Inv i st"
    obtain offs a p where st: "st = (offs, a, p)" by (cases st)
    from inv st have offs: "length offs = 8" "offs ! i = pass_start png i" and p: "length p = length pixels"
      and a: "a = 0xff \<longleftrightarrow> (\<forall>q < i. Q q)"
      by (simp_all add: Inv_def)
    obtain rowbytes where rb: "pass_rowbytes png i = Inr rowbytes"
      using tab by (simp add: pass_rowbytes_def)
    define offs' where "offs' = offs[i + 1 := offs ! i + pass_height png i * (rowbytes + 1)]"
    have i7: "i + 1 < 8" using i count by simp
    have o1: "offs' ! i = pass_start png i" "length offs' = 8"
      by (simp_all add: offs'_def offs)
    have o2: "offs' ! Suc i = pass_start png (Suc i)"
      using i7 by (simp add: offs'_def offs rb)
    have r: "unat (offs ! i) + src_step png * j + 2 < length (png_image png)"
      if "j < unat (pass_width png i) * unat (pass_height png i)" for j
      using reads [OF i that] by (simp add: offs)
    have w: "alpha_dest png rowpix i (of_nat y) (of_nat x) < length p"
      if "y < unat (pass_height png i)" "x < unat (pass_width png i)" for y x
      using writes [OF i that] by (simp add: p)
    from alpha_rows [OF ct r w, where brightness = brightness and acc = a]
    obtain src' a' p' where rows:
        "fold_fault (\<lambda>y. fold_fault (\<lambda>x. alpha_pixel brightness png rowpix i y x) (u32_upto (pass_width png i)))
           (u32_upto (pass_height png i)) (unat (offs ! i), a, p) = Inr (src', a', p')"
      and p': "length p' = length p"
      and a': "a' = 0xff \<longleftrightarrow> a = 0xff \<and> Q i"
      unfolding Q_def offs by blast
    have step: "alpha_pass brightness png rowpix i (offs, a, p) = Inr (offs', a', p')"
      using rows by (simp add: alpha_pass_def rb Let_def offs'_def)
    have "Inv (Suc i) (offs', a', p')"
      using a a' by (auto simp: Inv_def o1 o2 p p' less_Suc_eq)
    with step st show "\<exists>s'. alpha_pass brightness png rowpix i st = Inr s' \<and> Inv (Suc i) s'"
      by blast
  qed
  then show ?thesis
    by (auto simp: Inv_def Q_def)
qed

lemma copy_png_alpha_from_brightness:
  assumes ct: "color_type png \<noteq> 3" "color_type png \<noteq> 0" "color_type png \<noteq> 4"
    and tab: "unat (color_type png) < length samples"
    and pixels: "base bitmap = Some pixels"
    and reads: "\<And>q j. q < pass_count png \<Longrightarrow> j < unat (pass_width png q) * unat (pass_height png q)
        \<Longrightarrow> unat (pass_start png q) + src_step png * j + 2 < length (png_image png)"
    and writes: "\<And>q y x. q < pass_count png \<Longrightarrow> y < unat (pass_height png q) \<Longrightarrow> x < unat (pass_width png q)
        \<Longrightarrow> alpha_dest png (rowpixels bitmap) q (of_nat y) (of_nat x) < length pixels"
  shows "\<exists>pixels'. copy_png_alpha_to_bitmap brightness bitmap png =
      Inr (\<exists>q < pass_count png. \<exists>j < unat (pass_width png q) * unat (pass_height png q).
             alpha_at brightness png (unat (pass_start png q) + src_step png * j) \<noteq> 0xff,
           bitmap\<lparr>base := Some pixels'\<rparr>)
      \<and> length pixels' = length pixels"
proof -
  from alpha_passes [OF ct tab reads writes, where brightness = brightness]
  obtain offs acc pixels' where
    f: "fold_fault (alpha_pass brightness png (rowpixels bitmap)) [0..<pass_count png] (replicate 8 0, 0xff, pixels)
        = Inr (offs, acc, pixels')"
    and l: "length pixels' = length pixels"
    and a: "acc = 0xff \<longleftrightarrow>
           (\<forall>q < pass_count png. \<forall>j < unat (pass_width png q) * unat (pass_height png q).
              alpha_at brightness png (unat (pass_start png q) + src_step png * j) = 0xff)"
    by blast
  have "(acc \<noteq> 0xff) = (\<exists>q < pass_count png. \<exists>j < unat (pass_width png q) * unat (pass_height png q).
             alpha_at brightness png (unat (pass_start png q) + src_step png * j) \<noteq> 0xff)"
    using a by blast
  then show ?thesis
    using f l by (intro exI [of _ pixels']) (simp add: copy_png_alpha_to_bitmap_def pixels)
qed

lemma weighted_brightness_black: "weighted_brightness 0 0 0 = 0"
  by (simp add: weighted_brightness_def)

subsection \<open>The flag of the alpha overlay\<close>

text \<open>
  Claim C6, as the code has it.  An image of colour type 6 (RGB with alpha) is loaded in
  alpha-overlay mode onto a bitmap of the same width and height; the bit depth is at most 8,
  every pixel read lies inside the image bytes and every pixel written inside the storage of
  the bitmap.  Then \<open>render_load_png\<close> returns without a message, and the flag it returns is
  true exactly when some visited pixel has a derived alpha other than 0xFF, that is, false
  exactly when the bitwise AND of the derived values is 0xFF.  The derived alpha of a pixel
  is the brightness of its red, green and blue bytes (\<open>alpha_at\<close>); the fourth byte of the
  pixel, the alpha byte of the source, is stepped over and not read.
\<close>

theorem render_load_png_overlay_alpha:
  assumes rd: "read_file lib file = Some png0" "expand_buffer_8bit lib png0 = Some png"
    and rgba: "color_type png = 6"
    and dims: "png_width png = width bitmap" "png_height png = height bitmap"
    and depth: "bit_depth png \<le> 8"
    and pixels: "base bitmap = Some pixels"
    and reads: "\<And>q j. q < pass_count png \<Longrightarrow> j < unat (pass_width png q) * unat (pass_height png q)
        \<Longrightarrow> unat (pass_start png q) + 4 * j + 2 < length (png_image png)"
    and writes: "\<And>q y x. q < pass_count png \<Longrightarrow> y < unat (pass_height png q) \<Longrightarrow> x < unat (pass_width png q)
        \<Longrightarrow> alpha_dest png (rowpixels bitmap) q (of_nat y) (of_nat x) < length pixels"
  shows "\<exists>pixels'. render_load_png lib bitmap file True =
      Inr (\<exists>q < pass_count png. \<exists>j < unat (pass_width png q) * unat (pass_height png q).
             alpha_at (rgb_brightness lib) png (unat (pass_start png q) + 4 * j) \<noteq> 0xff,
           bitmap\<lparr>base := Some pixels'\<rparr>, [])"
proof -
  have step: "src_step png = 4"
    by (simp add: src_step_def rgba)
  have ct: "color_type png \<noteq> 3" "color_type png \<noteq> 0" "color_type png \<noteq> 4"
    by (simp_all add: rgba)
  have tab: "unat (color_type png) < length samples"
    by (simp add: rgba samples_def)
  have r: "unat (pass_start png q) + src_step png * j + 2 < length (png_image png)"
    if "q < pass_count png" "j < unat (pass_width png q) * unat (pass_height png q)" for q j
    using reads [OF that] by (simp add: step)
  from copy_png_alpha_from_brightness [OF ct tab pixels r writes, where brightness = "rgb_brightness lib"]
  obtain pixels' where
    "copy_png_alpha_to_bitmap (rgb_brightness lib) bitmap png =
      Inr (\<exists>q < pass_count png. \<exists>j < unat (pass_width png q) * unat (pass_height png q).
             alpha_at (rgb_brightness lib) png (unat (pass_start png q) + 4 * j) \<noteq> 0xff,
           bitmap\<lparr>base := Some pixels'\<rparr>)"
    unfolding step by blast
  then have "render_load_png lib bitmap file True =
      Inr (\<exists>q < pass_count png. \<exists>j < unat (pass_width png q) * unat (pass_height png q).
             alpha_at (rgb_brightness lib) png (unat (pass_start png q) + 4 * j) \<noteq> 0xff,
           bitmap\<lparr>base := Some pixels'\<rparr>, [])"
    using depth by (simp add: render_load_png_def rd dims)
  then show ?thesis
    by blast
qed

theorem render_load_png_overlay_alpha_witness:
  "read_file (decoded_as translucent_white_png) \<lparr>content = [], position = 0\<rparr> = Some translucent_white_png
   \<and> expand_buffer_8bit (decoded_as translucent_white_png) translucent_white_png = Some translucent_white_png
   \<and> color_type translucent_white_png = 6
   \<and> png_width translucent_white_png = width two_pixel_bitmap
   \<and> png_height translucent_white_png = height two_pixel_bitmap
   \<and> bit_depth translucent_white_png \<le> 8
   \<and> png_image translucent_white_png ! 3 = 0x00 \<and> png_image translucent_white_png ! 7 = 0x80
   \<and> (\<exists>pixels'. render_load_png (decoded_as translucent_white_png) two_pixel_bitmap \<lparr>content = [], position = 0\<rparr> True
         = Inr (False, two_pixel_bitmap\<lparr>base := Some pixels'\<rparr>, []))"
proof -
  have count: "pass_count translucent_white_png = 1"
    by (simp add: pass_count_def translucent_white_png_def)
  have size: "unat (pass_width translucent_white_png 0) = 2" "unat (pass_height translucent_white_png 0) = 1"
    by (simp_all add: pass_width_def pass_height_def translucent_white_png_def)
  have white: "weighted_brightness 0xFF 0xFF 0xFF = 0xFF"
    by (simp add: weighted_brightness_def)
  have px: "base two_pixel_bitmap = Some [0x00102030, 0x80405060]"
    by (simp add: two_pixel_bitmap_def)
  have r: "unat (pass_start translucent_white_png q) + 4 * j + 2 < length (png_image translucent_white_png)"
    if "q < pass_count translucent_white_png"
      "j < unat (pass_width translucent_white_png q) * unat (pass_height translucent_white_png q)" for q j
    using that by (simp add: count size) (simp add: translucent_white_png_def)
  have w: "alpha_dest translucent_white_png (rowpixels two_pixel_bitmap) q (of_nat y) (of_nat x)
        < length [0x00102030::u32, 0x80405060]"
    if "q < pass_count translucent_white_png" "y < unat (pass_height translucent_white_png q)"
      "x < unat (pass_width translucent_white_png q)" for q y x
    using that by (simp add: count size) (auto simp: alpha_dest_def translucent_white_png_def two_pixel_bitmap_def less_2_cases_iff)
  have flag: "(\<exists>q < pass_count translucent_white_png.
       \<exists>j < unat (pass_width translucent_white_png q) * unat (pass_height translucent_white_png q).
         alpha_at (rgb_brightness (decoded_as translucent_white_png)) translucent_white_png
           (unat (pass_start translucent_white_png q) + 4 * j) \<noteq> 0xff) = False"
  proof -
    have a0: "alpha_at weighted_brightness translucent_white_png 0 = 0xff"
      by (simp add: alpha_at_def translucent_white_png_def white)
    have a4: "alpha_at weighted_brightness translucent_white_png 4 = 0xff"
      by (simp add: alpha_at_def translucent_white_png_def white)
    have b: "rgb_brightness (decoded_as translucent_white_png) = weighted_brightness"
      by (simp add: decoded_as_def)
    have a: "alpha_at weighted_brightness translucent_white_png (4 * j) = 0xff" if "j < 2" for j
    proof -
      from that have "j = 0 \<or> j = 1" by arith
      then show ?thesis using a0 a4 by auto
    qed
    show ?thesis
      unfolding b by (simp add: count size a)
  qed
  show ?thesis
    using render_load_png_overlay_alpha [of "decoded_as translucent_white_png" "\<lparr>content = [], position = 0\<rparr>" translucent_white_png
        translucent_white_png two_pixel_bitmap "[0x00102030, 0x80405060]", OF _ _ _ _ _ _ px r w]
    unfolding flag
    by (simp add: decoded_as_def) (simp add: translucent_white_png_def two_pixel_bitmap_def)
qed

text \<open>
  Claim C6 as stated fails: the flag does not follow the alpha bytes of the source.  An
  image of one black pixel whose alpha byte is 0xFF, loaded onto a bitmap of one pixel: the
  brightness of black is 0, the pixel gets the alpha 0 and the flag returned is true.
\<close>

theorem render_load_png_opaque_reports_alpha:
  "color_type opaque_black_png = 6 \<and> png_image opaque_black_png = [0x00, 0x00, 0x00, 0xFF]
   \<and> png_width opaque_black_png = width one_pixel_bitmap
   \<and> png_height opaque_black_png = height one_pixel_bitmap
   \<and> render_load_png (decoded_as opaque_black_png) one_pixel_bitmap \<lparr>content = [], position = 0\<rparr> True
       = Inr (True, \<lparr>base = Some [0x00102030], width = 1, height = 1, rowpixels = 1\<rparr>, [])"
  by (simp add: render_load_png_def decoded_as_def opaque_black_png_def one_pixel_bitmap_def
      copy_png_alpha_to_bitmap_def pass_count_def alpha_pass_def pass_rowbytes_def samples_def
      pass_width_def pass_height_def u32_upto_def alpha_pixel_def alpha_dest_def derived_alpha_def
      rgb_bytes_def byte_at_def weighted_brightness_black rgb_t_def rgb_r_def rgb_g_def rgb_b_def Let_def)

section \<open>The compressed-format adapter\<close>

subsection \<open>The buffered source\<close>

text \<open>
  The message codes the adapter raises itself, and \<open>JMSG n\<close> for every other code of the
  decoder library.  \<open>JPEG_EOI\<close> is the end-of-image marker code of the library header.
\<close>

datatype jpeg_message = JERR_INPUT_EMPTY | JWRN_JPEG_EOF | JMSG nat

definition INPUT_BUF_SIZE :: nat where
  "INPUT_BUF_SIZE = 4096"

definition JPEG_EOI :: u8 where
  "JPEG_EOI = 0xD9"

text \<open>
  \<open>jpeg_corefile_source\<close> with the two fields it inherits from \<open>jpeg_source_mgr\<close>.
  \<open>next_input_byte\<close> is an offset into \<open>buffer\<close>, or \<open>None\<close> for the null pointer;
  \<open>infile\<close> is the caller's stream, which the source reads through a pointer.  A client
  is what the callbacks see through \<open>cinfo\<close>: the source, and the warnings emitted so far.
\<close>

record jpeg_corefile_source =
  next_input_byte :: "nat option"
  bytes_in_buffer :: nat
  infile :: random_read
  buffer :: "u8 list"
  start_of_file :: bool

record jpeg_client =
  src :: jpeg_corefile_source
  emitted :: "jpeg_message list"

definition do_init :: "jpeg_client \<Rightarrow> jpeg_client" where
  "do_init c = c\<lparr>src := (src c)\<lparr>start_of_file := True\<rparr>\<rparr>"

text \<open>
  \<open>do_fill\<close>: \<open>ERREXIT\<close> does not return (the error manager's \<open>error_exit\<close> jumps to the
  recovery point), so it is the result \<open>Inl\<close>; \<open>WARNMS\<close> records a warning and goes on.
\<close>

definition do_fill :: "jpeg_client \<Rightarrow> (jpeg_message + bool) \<times> jpeg_client" where
  "do_fill c =
     (let s = src c;
          (got, file) = stream_read (infile s) INPUT_BUF_SIZE;
          nbytes = length got;
          s = s\<lparr>infile := file, buffer := got @ drop nbytes (buffer s)\<rparr>
      in if nbytes = 0 then
           if start_of_file s then (Inl JERR_INPUT_EMPTY, c\<lparr>src := s\<rparr>)
           else
             (Inr True,
              c\<lparr>src := s\<lparr>buffer := (buffer s)[0 := 0xff, 1 := JPEG_EOI],
                         next_input_byte := Some 0, bytes_in_buffer := 2, start_of_file := False\<rparr>,
                emitted := emitted c @ [JWRN_JPEG_EOF]\<rparr>)
         else
           (Inr True,
            c\<lparr>src := s\<lparr>next_input_byte := Some 0, bytes_in_buffer := nbytes,
                       start_of_file := False\<rparr>\<rparr>))"

lemma do_fill_refilled:
  "do_fill c = (Inr ok, c') \<Longrightarrow> 0 < bytes_in_buffer (src c')"
  by (auto simp: do_fill_def Let_def split: prod.splits if_splits)

text \<open>
  \<open>do_skip\<close> and its \<open>while\<close> loop.  A refill that returns has put at least one byte
  into the buffer, which is why the loop ends.
\<close>

function skip_loop :: "int \<Rightarrow> jpeg_client \<Rightarrow> (jpeg_message + unit) \<times> jpeg_client" where
  "skip_loop num_bytes c =
     (if int (bytes_in_buffer (src c)) < num_bytes then
        (case do_fill c of
           (Inl m, c') \<Rightarrow> (Inl m, c')
         | (Inr ok, c') \<Rightarrow> skip_loop (num_bytes - int (bytes_in_buffer (src c))) c')
      else
        (Inr (),
         c\<lparr>src := (src c)\<lparr>next_input_byte := map_option (\<lambda>p. p + nat num_bytes) (next_input_byte (src c)),
                            bytes_in_buffer := bytes_in_buffer (src c) - nat num_bytes\<rparr>\<rparr>))"
  by pat_completeness auto
termination
proof (relation "measure (\<lambda>(n, c). 2 * nat n + (if bytes_in_buffer (src c) = 0 then 1 else 0))", goal_cases)
  case 1
  show ?case by simp
next
  case (2 num_bytes c x1 c' ok)
  then have "do_fill c = (Inr ok, c')" by simp
  then have "0 < bytes_in_buffer (src c')" by (rule do_fill_refilled)
  with 2 show ?case by (auto split: if_splits)
qed

definition do_skip :: "int \<Rightarrow> jpeg_client \<Rightarrow> (jpeg_message + unit) \<times> jpeg_client" where
  "do_skip num_bytes c = (if 0 < num_bytes then skip_loop num_bytes c else (Inr (), c))"

definition do_term :: "jpeg_client \<Rightarrow> jpeg_client" where
  "do_term c = c"

subsection \<open>The decoder library\<close>

text \<open>
  The decoder is an external library.  What one of its calls does is a tree of requests
  to the callbacks of the source: it returns a value, or raises a fatal error of its own,
  or consumes bytes of the buffer, or calls \<open>init_source\<close>, \<open>fill_input_buffer\<close>,
  \<open>skip_input_data\<close> or \<open>term_source\<close> and goes on, depending on the source it finds
  afterwards.  \<open>run_libjpeg\<close> runs such a call against the adapter's callbacks.  A fatal
  error raised inside a callback ends the call at once: the jump to the recovery point
  never returns into the library.
\<close>

datatype 'a libjpeg =
    Return 'a
  | Error_exit jpeg_message
  | Consume nat "'a libjpeg"
  | Init_source "'a libjpeg"
  | Fill_input_buffer "jpeg_corefile_source \<Rightarrow> 'a libjpeg"
  | Skip_input_data int "jpeg_corefile_source \<Rightarrow> 'a libjpeg"
  | Term_source "'a libjpeg"

primrec run_libjpeg :: "'a libjpeg \<Rightarrow> jpeg_client \<Rightarrow> (jpeg_message + 'a) \<times> jpeg_client" where
  "run_libjpeg (Return v) c = (Inr v, c)"
| "run_libjpeg (Error_exit m) c = (Inl m, c)"
| "run_libjpeg (Consume n k) c =
     run_libjpeg k
       (c\<lparr>src := (src c)\<lparr>next_input_byte := map_option (\<lambda>p. p + n) (next_input_byte (src c)),
                          bytes_in_buffer := bytes_in_buffer (src c) - n\<rparr>\<rparr>)"
| "run_libjpeg (Init_source k) c = run_libjpeg k (do_init c)"
| "run_libjpeg (Fill_input_buffer k) c =
     (case do_fill c of
        (Inl m, c') \<Rightarrow> (Inl m, c')
      | (Inr ok, c') \<Rightarrow> run_libjpeg (k (src c')) c')"
| "run_libjpeg (Skip_input_data n k) c =
     (case do_skip n c of
        (Inl m, c') \<Rightarrow> (Inl m, c')
      | (Inr u, c') \<Rightarrow> run_libjpeg (k (src c')) c')"
| "run_libjpeg (Term_source k) c = run_libjpeg k (do_term c)"

subsection \<open>Loading\<close>

text \<open>
  \<open>jpeg_corefile_source::source\<close>.  The memory it obtains from the decoder's pool is not
  initialised: \<open>fresh\<close> is what that memory holds, cut to a buffer of \<open>INPUT_BUF_SIZE\<close>
  bytes.
\<close>

definition source :: "jpeg_corefile_source option \<Rightarrow> jpeg_corefile_source \<Rightarrow> random_read \<Rightarrow> jpeg_corefile_source" where
  "source cinfo_src fresh file =
     (let s = (case cinfo_src of
                 None \<Rightarrow> fresh\<lparr>buffer := take INPUT_BUF_SIZE (buffer fresh @ replicate INPUT_BUF_SIZE 0)\<rparr>
               | Some s \<Rightarrow> s)
      in s\<lparr>infile := file, bytes_in_buffer := 0, next_input_byte := None\<rparr>)"

text \<open>
  Everything outside the adapter: the calls of the decoder library over its own state
  \<open>'d\<close>, the dimensions it reports, its message formatter, the allocator, and the two
  header checks of the format sniffer (\<open>True\<close> for a header that verifies).
  \<open>jpeg_create_decompress\<close> runs before a source is installed, so it either fails or
  returns.  With a source that never suspends, \<open>jpeg_read_scanlines\<close> delivers one
  row per call, as the contents of the scratch row.

  The compiler is outside the adapter too.  \<open>render_load_jpeg\<close> assigns its local
  \<open>buffer\<close>, which is not \<open>volatile\<close>, after the call of \<open>setjmp\<close>, and reads it at
  \<open>cleanup\<close>; when a jump to the recovery point lies in between, the value read is
  indeterminate.  \<open>buffer_survives_jump\<close> tells which of the two values a compiled function
  finds there: the pointer last assigned, when the variable lives in memory, or the null
  pointer it held when \<open>setjmp\<close> was called, when it lives in a register that the jump
  restores.
\<close>

record 'd externals =
  jpeg_create_decompress :: "jpeg_message + 'd"
  jpeg_read_header :: "'d \<Rightarrow> 'd libjpeg"
  jpeg_start_decompress :: "'d \<Rightarrow> 'd libjpeg"
  jpeg_read_scanlines :: "'d \<Rightarrow> ('d \<times> (nat \<Rightarrow> u8)) libjpeg"
  jpeg_finish_decompress :: "'d \<Rightarrow> 'd libjpeg"
  output_width :: "'d \<Rightarrow> nat"
  output_height :: "'d \<Rightarrow> nat"
  output_components :: "'d \<Rightarrow> int"
  format_message :: "jpeg_message \<Rightarrow> string"
  fresh_source :: jpeg_corefile_source
  bitmap_allocate :: "nat \<Rightarrow> nat \<Rightarrow> bitmap_argb32"
  malloc_array :: bool
  malloc_row :: "nat \<Rightarrow> bool"
  png_verify_header :: "random_read \<Rightarrow> bool \<times> random_read"
  msdib_verify_header :: "random_read \<Rightarrow> bool \<times> random_read"
  buffer_survives_jump :: bool

text \<open>
  The state of one \<open>render_load_jpeg\<close>: the destination bitmap, the caller's stream, the
  warnings and the diagnostics printed, whether decoder state is allocated, the scratch
  pointer as last assigned to \<open>buffer\<close> (\<open>None\<close> for null, \<open>Some row\<close> with \<open>row\<close> telling
  whether \<open>buffer[0]\<close> is allocated too), and the number of blocks obtained from \<open>malloc\<close>
  and not yet freed.
\<close>

record jpeg_load =
  bitmap :: bitmap_argb32
  stream :: random_read
  warnings :: "jpeg_message list"
  diagnostics :: "string list"
  decoder_live :: bool
  scanline_buffer :: "bool option"
  live_blocks :: nat

text \<open>One call of the library, reading the caller's stream through the source.\<close>

definition call ::
    "'a libjpeg \<Rightarrow> jpeg_corefile_source \<Rightarrow> jpeg_load
       \<Rightarrow> (jpeg_message + 'a) \<times> jpeg_corefile_source \<times> jpeg_load" where
  "call p s st =
     (case run_libjpeg p \<lparr>src = s\<lparr>infile := stream st\<rparr>, emitted = warnings st\<rparr> of
        (r, c) \<Rightarrow> (r, src c, st\<lparr>stream := infile (src c), warnings := emitted c\<rparr>))"

text \<open>
  The scanline loop, \<open>rows_left\<close> being \<open>output_height - output_scanline\<close>.  A component
  count other than 1 or 3 is reported after the first row is read, and leaves the loop.
\<close>

fun read_rows ::
    "'d externals \<Rightarrow> nat \<Rightarrow> int \<Rightarrow> nat \<Rightarrow> nat \<Rightarrow> 'd \<Rightarrow> jpeg_corefile_source \<Rightarrow> jpeg_load
       \<Rightarrow> (jpeg_message + 'd) \<times> jpeg_corefile_source \<times> jpeg_load" where
  "read_rows ext w s 0 output_scanline d jsrc st = (Inr d, jsrc, st)"
| "read_rows ext w s (Suc rows_left) output_scanline d jsrc st =
     (let j = output_scanline
      in case call (jpeg_read_scanlines ext d) jsrc st of
           (Inl m, jsrc, st) \<Rightarrow> (Inl m, jsrc, st)
         | (Inr (d, row), jsrc, st) \<Rightarrow>
            (if s = 1 then
               read_rows ext w s rows_left (output_scanline + 1) d jsrc
                 (st\<lparr>bitmap := fold (\<lambda>i b. pix_update b j i (rgb_t 0xff (row i) (row i) (row i)))
                                  [0..<w] (bitmap st)\<rparr>)
             else if s = 3 then
               read_rows ext w s rows_left (output_scanline + 1) d jsrc
                 (st\<lparr>bitmap := fold (\<lambda>i b. pix_update b j i
                                     (rgb_t 0xff (row (i * 3)) (row (i * 3 + 1)) (row (i * 3 + 2))))
                                  [0..<w] (bitmap st)\<rparr>)
             else
               (Inr d, jsrc,
                st\<lparr>diagnostics := diagnostics st @ [''Cannot read JPEG data from file.''], bitmap := bitmap_reset\<rparr>)))"

text \<open>
  \<open>render_load_jpeg\<close> in four parts: from the allocation of the bitmap to the end of the
  scanline loop; everything between \<open>setjmp\<close> and the label \<open>cleanup\<close>, where \<open>Inl\<close> is
  the jump to the recovery point; the code after \<open>cleanup\<close>, given the value \<open>seen\<close> that
  it reads from the local \<open>buffer\<close>; and the whole function.  On the path without a jump
  \<open>buffer\<close> holds the pointer last assigned.  After a jump it holds that pointer or null,
  as \<open>buffer_survives_jump\<close> tells; the two agree when the jump came before the
  assignment.
\<close>

definition render_load_jpeg_rows ::
    "'d externals \<Rightarrow> 'd \<Rightarrow> jpeg_corefile_source \<Rightarrow> jpeg_load
       \<Rightarrow> (jpeg_message + 'd) \<times> jpeg_corefile_source \<times> jpeg_load" where
  "render_load_jpeg_rows ext d jsrc st =
     (let w = output_width ext d;
          h = output_height ext d;
          s = output_components ext d;
          st = st\<lparr>bitmap := bitmap_allocate ext w h\<rparr>;
          row_stride = output_width ext d * nat (output_components ext d);
          st = (if malloc_array ext
                then st\<lparr>scanline_buffer := Some False, live_blocks := live_blocks st + 1\<rparr>
                else st);
          st = (if scanline_buffer st \<noteq> None \<and> malloc_row ext row_stride
                then st\<lparr>scanline_buffer := Some True, live_blocks := live_blocks st + 1\<rparr>
                else st)
      in if valid (bitmap st) \<and> scanline_buffer st = Some True
         then read_rows ext w s h 0 d jsrc st
         else (Inr d, jsrc,
               st\<lparr>diagnostics := diagnostics st @ [''Error allocating memory for JPEG image.''],
                  bitmap := bitmap_reset\<rparr>))"

definition render_load_jpeg_decode ::
    "'d externals \<Rightarrow> jpeg_load \<Rightarrow> (jpeg_message + unit) \<times> jpeg_load" where
  "render_load_jpeg_decode ext st =
     (let st = st\<lparr>decoder_live := True\<rparr>
      in case jpeg_create_decompress ext of
           Inl m \<Rightarrow> (Inl m, st)
         | Inr d \<Rightarrow>
            (let jsrc = source None (fresh_source ext) (stream st)
             in case call (jpeg_read_header ext d) jsrc st of
                  (Inl m, jsrc, st) \<Rightarrow> (Inl m, st)
                | (Inr d, jsrc, st) \<Rightarrow>
                   (case call (jpeg_start_decompress ext d) jsrc st of
                      (Inl m, jsrc, st) \<Rightarrow> (Inl m, st)
                    | (Inr d, jsrc, st) \<Rightarrow>
                       (case render_load_jpeg_rows ext d jsrc st of
                          (Inl m, jsrc, st) \<Rightarrow> (Inl m, st)
                        | (Inr d, jsrc, st) \<Rightarrow>
                           (case call (jpeg_finish_decompress ext d) jsrc st of
                              (Inl m, jsrc, st) \<Rightarrow> (Inl m, st)
                            | (Inr d, jsrc, st) \<Rightarrow> (Inr (), st))))))"

definition render_load_jpeg_cleanup :: "bool option \<Rightarrow> jpeg_load \<Rightarrow> jpeg_load" where
  "render_load_jpeg_cleanup seen st =
     (let st = st\<lparr>decoder_live := False\<rparr>
      in case seen of
           None \<Rightarrow> st
         | Some row \<Rightarrow>
             let st = (if row then st\<lparr>live_blocks := live_blocks st - 1\<rparr> else st)
             in st\<lparr>live_blocks := live_blocks st - 1, scanline_buffer := None\<rparr>)"

definition jpeg_load_start :: "random_read \<Rightarrow> jpeg_load" where
  "jpeg_load_start file =
     \<lparr>bitmap = bitmap_reset, stream = file, warnings = [], diagnostics = [],
      decoder_live = False, scanline_buffer = None, live_blocks = 0\<rparr>"

definition render_load_jpeg :: "'d externals \<Rightarrow> bitmap_argb32 \<Rightarrow> random_read \<Rightarrow> jpeg_load" where
  "render_load_jpeg ext old_bitmap file =
     (case render_load_jpeg_decode ext (jpeg_load_start file) of
        (Inl m, st) \<Rightarrow>
          render_load_jpeg_cleanup (if buffer_survives_jump ext then scanline_buffer st else None)
            (st\<lparr>diagnostics := diagnostics st @ [''JPEG error reading data from file: '' @ format_message ext m],
                bitmap := bitmap_reset\<rparr>)
      | (Inr u, st) \<Rightarrow> render_load_jpeg_cleanup (scanline_buffer st) st)"

lemma call_frame:
  "call p s st = (r, s', st') \<Longrightarrow>
     bitmap st' = bitmap st \<and> diagnostics st' = diagnostics st \<and> decoder_live st' = decoder_live st
       \<and> scanline_buffer st' = scanline_buffer st \<and> live_blocks st' = live_blocks st"
  by (auto simp: call_def split: prod.splits)

lemma read_rows_frame:
  "read_rows ext w s n j d jsrc st = (r, jsrc', st') \<Longrightarrow>
     decoder_live st' = decoder_live st \<and> scanline_buffer st' = scanline_buffer st
       \<and> live_blocks st' = live_blocks st
       \<and> (diagnostics st' = diagnostics st \<or> (diagnostics st' \<noteq> [] \<and> bitmap st' = bitmap_reset))"
proof (induction n arbitrary: j d jsrc st)
  case 0
  then show ?case by simp
next
  case (Suc n)
  obtain r1 s1 st1 where c: "call (jpeg_read_scanlines ext d) jsrc st = (r1, s1, st1)"
    by (cases "call (jpeg_read_scanlines ext d) jsrc st") auto
  note f = call_frame [OF c]
  show ?case
  proof (cases r1)
    case (Inl m)
    with Suc.prems c f show ?thesis by auto
  next
    case (Inr dr)
    obtain d1 row where dr: "dr = (d1, row)" by (cases dr)
    consider "s = 1" | "s \<noteq> 1" "s = 3" | "s \<noteq> 1" "s \<noteq> 3" by blast
    then show ?thesis
    proof cases
      case 1
      with Suc.prems c Inr dr
      have "read_rows ext w s n (j + 1) d1 s1
              (st1\<lparr>bitmap := fold (\<lambda>i b. pix_update b j i (rgb_t 0xff (row i) (row i) (row i)))
                  [0..<w] (bitmap st1)\<rparr>) = (r, jsrc', st')"
        by simp
      from Suc.IH [OF this] f show ?thesis by simp
    next
      case 2
      with Suc.prems c Inr dr
      have "read_rows ext w s n (j + 1) d1 s1
              (st1\<lparr>bitmap := fold (\<lambda>i b. pix_update b j i
                                     (rgb_t 0xff (row (i * 3)) (row (i * 3 + 1)) (row (i * 3 + 2))))
                  [0..<w] (bitmap st1)\<rparr>) = (r, jsrc', st')"
        by simp
      from Suc.IH [OF this] f show ?thesis by simp
    next
      case 3
      with Suc.prems c Inr dr f show ?thesis by auto
    qed
  qed
qed

subsection \<open>Every exit path releases what the call acquired\<close>

definition held_blocks :: "bool option \<Rightarrow> nat" where
  "held_blocks b = (case b of None \<Rightarrow> 0 | Some row \<Rightarrow> if row then 2 else 1)"

lemma render_load_jpeg_rows_settled:
  assumes "render_load_jpeg_rows ext d jsrc st = (r, jsrc', st')"
    and "diagnostics st = []" and "scanline_buffer st = None" and "live_blocks st = 0"
  shows "decoder_live st' = decoder_live st \<and> live_blocks st' = held_blocks (scanline_buffer st')
           \<and> (diagnostics st' \<noteq> [] \<longrightarrow> bitmap st' = bitmap_reset)"
proof -
  define st1 where "st1 = st\<lparr>bitmap := bitmap_allocate ext (output_width ext d) (output_height ext d)\<rparr>"
  define st2 where "st2 = (if malloc_array ext
        then st1\<lparr>scanline_buffer := Some False, live_blocks := live_blocks st1 + 1\<rparr> else st1)"
  define st3 where "st3 = (if scanline_buffer st2 \<noteq> None
          \<and> malloc_row ext (output_width ext d * nat (output_components ext d))
        then st2\<lparr>scanline_buffer := Some True, live_blocks := live_blocks st2 + 1\<rparr> else st2)"
  have st3: "diagnostics st3 = []" "decoder_live st3 = decoder_live st"
      "live_blocks st3 = held_blocks (scanline_buffer st3)"
    using assms(2-4) by (auto simp: st3_def st2_def st1_def held_blocks_def)
  have r: "(if valid (bitmap st3) \<and> scanline_buffer st3 = Some True
        then read_rows ext (output_width ext d) (output_components ext d) (output_height ext d) 0 d jsrc st3
        else (Inr d, jsrc, st3\<lparr>diagnostics := diagnostics st3 @ [''Error allocating memory for JPEG image.''],
                bitmap := bitmap_reset\<rparr>)) = (r, jsrc', st')"
    using assms(1) unfolding render_load_jpeg_rows_def Let_def st3_def st2_def st1_def .
  show ?thesis
  proof (cases "valid (bitmap st3) \<and> scanline_buffer st3 = Some True")
    case True
    with r have "read_rows ext (output_width ext d) (output_components ext d) (output_height ext d) 0
        d jsrc st3 = (r, jsrc', st')"
      by simp
    from read_rows_frame [OF this] st3 show ?thesis by auto
  next
    case False
    with r st3 show ?thesis by auto
  qed
qed

lemma jpeg_load_start_simps:
  "diagnostics (jpeg_load_start file) = []" "scanline_buffer (jpeg_load_start file) = None"
  "live_blocks (jpeg_load_start file) = 0" "bitmap (jpeg_load_start file) = bitmap_reset"
  by (simp_all add: jpeg_load_start_def)

lemma render_load_jpeg_decode_settled:
  assumes "render_load_jpeg_decode ext (jpeg_load_start file) = (r, st)"
  shows "live_blocks st = held_blocks (scanline_buffer st) \<and> (diagnostics st \<noteq> [] \<longrightarrow> bitmap st = bitmap_reset)"
proof -
  define st0 where "st0 = (jpeg_load_start file)\<lparr>decoder_live := True\<rparr>"
  have st0: "diagnostics st0 = []" "scanline_buffer st0 = None" "live_blocks st0 = 0" "bitmap st0 = bitmap_reset"
    by (simp_all add: st0_def jpeg_load_start_simps)
  then have ok0: "live_blocks st0 = held_blocks (scanline_buffer st0) \<and> (diagnostics st0 \<noteq> [] \<longrightarrow> bitmap st0 = bitmap_reset)"
    by (simp add: held_blocks_def)
  show ?thesis
  proof (cases "jpeg_create_decompress ext")
    case (Inl m)
    with assms have "st = st0"
      by (simp add: render_load_jpeg_decode_def st0_def)
    with ok0 show ?thesis by simp
  next
    case (Inr d)
    define jsrc where "jsrc = source None (fresh_source ext) (stream st0)"
    obtain r1 s1 st1 where c1: "call (jpeg_read_header ext d) jsrc st0 = (r1, s1, st1)"
      by (cases "call (jpeg_read_header ext d) jsrc st0") auto
    note f1 = call_frame [OF c1]
    show ?thesis
    proof (cases r1)
      case (Inl m)
      with assms Inr c1 have "st = st1"
        by (simp add: render_load_jpeg_decode_def Let_def flip: st0_def jsrc_def)
      with f1 ok0 show ?thesis by simp
    next
      case d1: (Inr d1)
      obtain r2 s2 st2 where c2: "call (jpeg_start_decompress ext d1) s1 st1 = (r2, s2, st2)"
        by (cases "call (jpeg_start_decompress ext d1) s1 st1") auto
      note f2 = call_frame [OF c2]
      show ?thesis
      proof (cases r2)
        case (Inl m)
        with assms Inr c1 d1 c2 have "st = st2"
          by (simp add: render_load_jpeg_decode_def Let_def flip: st0_def jsrc_def)
        with f1 f2 ok0 show ?thesis by simp
      next
        case d2: (Inr d2)
        obtain r3 s3 st3 where c3: "render_load_jpeg_rows ext d2 s2 st2 = (r3, s3, st3)"
          by (cases "render_load_jpeg_rows ext d2 s2 st2") auto
        have ok3: "live_blocks st3 = held_blocks (scanline_buffer st3)
            \<and> (diagnostics st3 \<noteq> [] \<longrightarrow> bitmap st3 = bitmap_reset)"
          using render_load_jpeg_rows_settled [OF c3] f1 f2 st0 by simp
        show ?thesis
        proof (cases r3)
          case (Inl m)
          with assms Inr c1 d1 c2 d2 c3 have "st = st3"
            by (simp add: render_load_jpeg_decode_def Let_def flip: st0_def jsrc_def)
          with ok3 show ?thesis by simp
        next
          case d3: (Inr d3)
          obtain r4 s4 st4 where c4: "call (jpeg_finish_decompress ext d3) s3 st3 = (r4, s4, st4)"
            by (cases "call (jpeg_finish_decompress ext d3) s3 st3") auto
          note f4 = call_frame [OF c4]
          from assms Inr c1 d1 c2 d2 c3 d3 c4 have "st = st4"
            by (cases r4) (simp_all add: render_load_jpeg_decode_def Let_def flip: st0_def jsrc_def)
          with f4 ok3 show ?thesis by simp
        qed
      qed
    qed
  qed
qed

lemma render_load_jpeg_cleanup_released:
  assumes "live_blocks st = held_blocks (scanline_buffer st)"
  shows "decoder_live (render_load_jpeg_cleanup (scanline_buffer st) st) = False"
    and "scanline_buffer (render_load_jpeg_cleanup (scanline_buffer st) st) = None"
    and "live_blocks (render_load_jpeg_cleanup (scanline_buffer st) st) = 0"
    and "bitmap (render_load_jpeg_cleanup (scanline_buffer st) st) = bitmap st"
    and "diagnostics (render_load_jpeg_cleanup (scanline_buffer st) st) = diagnostics st"
  using assms
  by (auto simp: render_load_jpeg_cleanup_def held_blocks_def Let_def split: option.splits if_splits)

lemma render_load_jpeg_cleanup_null:
  "render_load_jpeg_cleanup None st = st\<lparr>decoder_live := False\<rparr>"
  by (simp add: render_load_jpeg_cleanup_def)

text \<open>
  What every call of \<open>render_load_jpeg\<close> guarantees, whatever the decoder library and the
  allocator do.  It returns a state, the decoder state is destroyed, and on every path that
  printed a diagnostic the bitmap is empty.  When a call of the library ends in the jump to
  the recovery point, with message \<open>m\<close>, the last diagnostic is the formatted message.  The
  scratch blocks are freed on the path without a jump, and after a jump if the jump came
  before \<open>buffer\<close> was assigned or the compiled function finds the assigned pointer in
  \<open>buffer\<close>; if it finds the null pointer there, the blocks allocated stay allocated.
\<close>

lemma render_load_jpeg_contained:
  "decoder_live (render_load_jpeg ext old_bitmap file) = False
   \<and> (diagnostics (render_load_jpeg ext old_bitmap file) \<noteq> []
        \<longrightarrow> bitmap (render_load_jpeg ext old_bitmap file) = bitmap_reset)
   \<and> (\<forall>m st. render_load_jpeg_decode ext (jpeg_load_start file) = (Inl m, st) \<longrightarrow>
         bitmap (render_load_jpeg ext old_bitmap file) = bitmap_reset
         \<and> diagnostics (render_load_jpeg ext old_bitmap file)
             = diagnostics st @ [''JPEG error reading data from file: '' @ format_message ext m]
         \<and> (buffer_survives_jump ext \<or> scanline_buffer st = None \<longrightarrow>
               scanline_buffer (render_load_jpeg ext old_bitmap file) = None
               \<and> live_blocks (render_load_jpeg ext old_bitmap file) = 0)
         \<and> (\<not> buffer_survives_jump ext \<longrightarrow>
               scanline_buffer (render_load_jpeg ext old_bitmap file) = scanline_buffer st
               \<and> live_blocks (render_load_jpeg ext old_bitmap file) = held_blocks (scanline_buffer st)))
   \<and> (\<forall>u st. render_load_jpeg_decode ext (jpeg_load_start file) = (Inr u, st) \<longrightarrow>
         scanline_buffer (render_load_jpeg ext old_bitmap file) = None
         \<and> live_blocks (render_load_jpeg ext old_bitmap file) = 0)"
proof -
  obtain r st where d: "render_load_jpeg_decode ext (jpeg_load_start file) = (r, st)"
    by (cases "render_load_jpeg_decode ext (jpeg_load_start file)") auto
  note s = render_load_jpeg_decode_settled [OF d]
  show ?thesis
  proof (cases r)
    case (Inl m)
    define st' where "st' = st\<lparr>diagnostics := diagnostics st @ [''JPEG error reading data from file: '' @ format_message ext m],
                bitmap := bitmap_reset\<rparr>"
    have held: "live_blocks st' = held_blocks (scanline_buffer st')" and same: "scanline_buffer st' = scanline_buffer st"
      using s by (simp_all add: st'_def)
    note c = render_load_jpeg_cleanup_released [OF held]
    show ?thesis
    proof (cases "buffer_survives_jump ext \<or> scanline_buffer st = None")
      case True
      then have "render_load_jpeg ext old_bitmap file = render_load_jpeg_cleanup (scanline_buffer st') st'"
        using d Inl by (auto simp: render_load_jpeg_def st'_def)
      with c d Inl True show ?thesis
        by (auto simp: st'_def held_blocks_def)
    next
      case False
      then have "render_load_jpeg ext old_bitmap file = st'\<lparr>decoder_live := False\<rparr>"
        using d Inl by (simp add: render_load_jpeg_def st'_def render_load_jpeg_cleanup_null)
      with d Inl False s show ?thesis
        by (auto simp: st'_def held_blocks_def)
    qed
  next
    case (Inr u)
    note c = render_load_jpeg_cleanup_released [OF conjunct1 [OF s]]
    have "render_load_jpeg ext old_bitmap file = render_load_jpeg_cleanup (scanline_buffer st) st"
      using d Inr by (simp add: render_load_jpeg_def)
    with c d Inr s show ?thesis by simp
  qed
qed

subsection \<open>The end of the stream\<close>

lemma stream_read_nothing:
  "fst (stream_read file n) = [] \<Longrightarrow> stream_read file n = ([], file)"
  by (auto simp: stream_read_def Let_def min_def)

lemma do_fill_first_empty:
  assumes "fst (stream_read (infile (src c)) INPUT_BUF_SIZE) = []" and "start_of_file (src c)"
  shows "do_fill c = (Inl JERR_INPUT_EMPTY, c)"
  using assms(2) by (simp add: do_fill_def Let_def stream_read_nothing [OF assms(1)])






subsection \<open>A decoder that asks for input first\<close>

text \<open>
  An instance of the externals: the decoder reads its header by initialising the source
  and asking for input once, the image is one pixel of three components, and every
  allocation succeeds.
\<close>

definition example_externals :: "unit externals" where
  "example_externals =
     \<lparr>jpeg_create_decompress = Inr (),
      jpeg_read_header = (\<lambda>d. Init_source (Fill_input_buffer (\<lambda>s. Return d))),
      jpeg_start_decompress = Return,
      jpeg_read_scanlines = (\<lambda>d. Return (d, \<lambda>i. 0)),
      jpeg_finish_decompress = Return,
      output_width = (\<lambda>d. 1),
      output_height = (\<lambda>d. 1),
      output_components = (\<lambda>d. 3),
      format_message = (\<lambda>m. ''Empty input file''),
      fresh_source = \<lparr>next_input_byte = None, bytes_in_buffer = 0,
                       infile = \<lparr>content = [], position = 0\<rparr>, buffer = [], start_of_file = False\<rparr>,
      bitmap_allocate = (\<lambda>w h. \<lparr>base = Some (replicate (w * h) 0), width = of_nat w,
                                  height = of_nat h, rowpixels = of_nat w\<rparr>),
      malloc_array = True,
      malloc_row = (\<lambda>n. True),
      png_verify_header = (\<lambda>f. (False, f)),
      msdib_verify_header = (\<lambda>f. (False, f)),
      buffer_survives_jump = True\<rparr>"

definition empty_stream :: random_read where
  "empty_stream = \<lparr>content = [], position = 0\<rparr>"


lemma example_stream_empty: "fst (stream_read empty_stream INPUT_BUF_SIZE) = []"
  by (simp add: stream_read_def empty_stream_def)


subsection \<open>A four-component image\<close>

text \<open>
  A stream of two bytes, and a second instance of the externals: the decoder state counts
  the rows delivered, the image is one pixel wide, two rows high and has four components,
  and \<open>jpeg_finish_decompress\<close> raises a fatal error when rows are still to come, as the
  library does (\<open>JMSG 0\<close> stands for its code \<open>JERR_TOO_LITTLE_DATA\<close>).  The compiled function
  keeps \<open>buffer\<close> in a register.
\<close>

definition soi_stream :: random_read where
  "soi_stream = \<lparr>content = [0xFF, 0xD8], position = 0\<rparr>"

definition four_component_externals :: "nat externals" where
  "four_component_externals =
     \<lparr>jpeg_create_decompress = Inr 0,
      jpeg_read_header = (\<lambda>d. Init_source (Fill_input_buffer (\<lambda>s. Return d))),
      jpeg_start_decompress = Return,
      jpeg_read_scanlines = (\<lambda>d. Return (Suc d, \<lambda>i. 0)),
      jpeg_finish_decompress = (\<lambda>d. if d < 2 then Error_exit (JMSG 0) else Return d),
      output_width = (\<lambda>d. 1),
      output_height = (\<lambda>d. 2),
      output_components = (\<lambda>d. 4),
      format_message = (\<lambda>m. ''Application transferred too few scanlines''),
      fresh_source = \<lparr>next_input_byte = None, bytes_in_buffer = 0,
                       infile = \<lparr>content = [], position = 0\<rparr>, buffer = [], start_of_file = False\<rparr>,
      bitmap_allocate = (\<lambda>w h. \<lparr>base = Some (replicate (w * h) 0), width = of_nat w,
                                  height = of_nat h, rowpixels = of_nat w\<rparr>),
      malloc_array = True,
      malloc_row = (\<lambda>n. True),
      png_verify_header = (\<lambda>f. (False, f)),
      msdib_verify_header = (\<lambda>f. (False, f)),
      buffer_survives_jump = False\<rparr>"

lemma soi_stream_read:
  "stream_read soi_stream INPUT_BUF_SIZE = ([0xFF, 0xD8], soi_stream\<lparr>position := 2\<rparr>)"
  by (simp add: stream_read_def soi_stream_def INPUT_BUF_SIZE_def Let_def numeral_2_eq_2)

lemma header_read_soi:
  "run_libjpeg (Init_source (Fill_input_buffer (\<lambda>s. Return d)))
       \<lparr>src = (source None fresh file)\<lparr>infile := soi_stream\<rparr>, emitted = ws\<rparr>
     = (Inr d, \<lparr>src = (source None fresh file)
                   \<lparr>infile := soi_stream\<lparr>position := 2\<rparr>,
                     buffer := [0xFF, 0xD8] @ drop 2 (buffer (source None fresh file)),
                     next_input_byte := Some 0, bytes_in_buffer := 2, start_of_file := False\<rparr>,
                emitted = ws\<rparr>)"
  by (simp add: do_init_def do_fill_def soi_stream_read Let_def numeral_2_eq_2)

lemma four_component_decode:
  "render_load_jpeg_decode four_component_externals (jpeg_load_start soi_stream)
     = (Inl (JMSG 0),
        \<lparr>bitmap = bitmap_reset, stream = soi_stream\<lparr>position := 2\<rparr>, warnings = [],
         diagnostics = [''Cannot read JPEG data from file.''],
         decoder_live = True, scanline_buffer = Some True, live_blocks = 2\<rparr>)"
  by (auto simp add: render_load_jpeg_decode_def render_load_jpeg_rows_def jpeg_load_start_def
      four_component_externals_def call_def header_read_soi Let_def valid_def numeral_2_eq_2
      simp del: run_libjpeg.simps(4,5))

text \<open>
  Claim C9 at a four-component image of two rows.  The scanline loop reads the first row,
  reports the component count and leaves; \<open>jpeg_finish_decompress\<close>, called with a row
  still to come, raises its error, and the jump to the recovery point is taken while both
  scratch blocks are allocated.  \<open>render_load_jpeg\<close> returns, the decoder state is
  destroyed, the bitmap is empty and both diagnostics are printed; but \<open>cleanup\<close> finds the
  null pointer in \<open>buffer\<close>, and the two blocks are still allocated on return.
\<close>

theorem render_load_jpeg_jump_leaks:
  "render_load_jpeg four_component_externals bitmap_reset soi_stream =
     \<lparr>bitmap = bitmap_reset, stream = soi_stream\<lparr>position := 2\<rparr>, warnings = [],
      diagnostics = [''Cannot read JPEG data from file.'',
                     ''JPEG error reading data from file: Application transferred too few scanlines''],
      decoder_live = False, scanline_buffer = Some True, live_blocks = 2\<rparr>"
  by (simp add: render_load_jpeg_def four_component_decode render_load_jpeg_cleanup_def)
    (simp add: four_component_externals_def)

section \<open>The format sniffer\<close>

text \<open>The format tags \<open>render_detect_image\<close> returns.\<close>

datatype ru_imgformat =
    RENDUTIL_IMGFORMAT_PNG
  | RENDUTIL_IMGFORMAT_JPEG
  | RENDUTIL_IMGFORMAT_MSDIB
  | RENDUTIL_IMGFORMAT_UNKNOWN

text \<open>
  The second probe: create a decoder, install the source, read the header.  Any fatal
  error of the library jumps to \<open>notjpeg\<close>; the flag tells whether the header was read.
  Both ways the decoder is destroyed, and the stream is where the reads have left it.
\<close>

definition jpeg_probe :: "'d externals \<Rightarrow> random_read \<Rightarrow> bool \<times> random_read" where
  "jpeg_probe ext file =
     (case jpeg_create_decompress ext of
        Inl m \<Rightarrow> (False, file)
      | Inr d \<Rightarrow>
         (case run_libjpeg (jpeg_read_header ext d)
                 \<lparr>src = source None (fresh_source ext) file, emitted = []\<rparr> of
            (Inl m, c) \<Rightarrow> (False, infile (src c))
          | (Inr d, c) \<Rightarrow> (True, infile (src c))))"

text \<open>
  \<open>render_detect_image\<close> returns the tag, and leaves the caller's stream as returned
  here.  The stream is seekable: \<open>seek(0, SEEK_SET)\<close> sets the position to 0.
\<close>

definition render_detect_image :: "'d externals \<Rightarrow> random_read \<Rightarrow> ru_imgformat \<times> random_read" where
  "render_detect_image ext file =
     (let (png, file) = png_verify_header ext file;
          file = stream_seek_set file 0
      in if png then (RENDUTIL_IMGFORMAT_PNG, file)
         else
           let (jpeg, file) = jpeg_probe ext file;
               file = stream_seek_set file 0
           in if jpeg then (RENDUTIL_IMGFORMAT_JPEG, file)
              else
                let (msdib, file) = msdib_verify_header ext file;
                    file = stream_seek_set file 0
                in if msdib then (RENDUTIL_IMGFORMAT_MSDIB, file)
                   else (RENDUTIL_IMGFORMAT_UNKNOWN, file))"


text \<open>
  Claim C7.  The probes run in the order PNG, JPEG, DIB and the first that matches decides
  the tag.  The PNG check sees the caller's stream.  The JPEG probe matches when the decoder
  is created and \<open>jpeg_read_header\<close>, reading through the adapter's source from the stream
  set back to position 0, returns; a fatal error of the library or of the source is no
  match and goes no further.  The DIB check sees the stream set back to position 0 again.
  The tag is PNG whenever the PNG header verifies, \<open>UNKNOWN\<close> when none of the three
  matches, and the stream is at position 0 after each probe and when the function returns.
\<close>

theorem render_detect_image_probes:
  "(let png = png_verify_header ext file;
        f1 = stream_seek_set (snd png) 0;
        header =
          (case jpeg_create_decompress ext of
             Inl m \<Rightarrow> (Inl m, f1)
           | Inr d \<Rightarrow>
              (case run_libjpeg (jpeg_read_header ext d)
                      \<lparr>src = source None (fresh_source ext) f1, emitted = []\<rparr> of
                 (r, c) \<Rightarrow> (r, infile (src c))));
        f2 = stream_seek_set (snd header) 0;
        msdib = msdib_verify_header ext f2;
        f3 = stream_seek_set (snd msdib) 0
    in render_detect_image ext file =
         (if fst png then (RENDUTIL_IMGFORMAT_PNG, f1)
          else if \<not> isl (fst header) then (RENDUTIL_IMGFORMAT_JPEG, f2)
          else if fst msdib then (RENDUTIL_IMGFORMAT_MSDIB, f3)
          else (RENDUTIL_IMGFORMAT_UNKNOWN, f3))
       \<and> position f1 = 0 \<and> position f2 = 0 \<and> position f3 = 0)
   \<and> position (snd (render_detect_image ext file)) = 0"
  by (simp add: render_detect_image_def jpeg_probe_def Let_def stream_seek_set_def
      split: prod.splits sum.splits)

theorem render_detect_image_probes_witness:
  "render_detect_image example_externals soi_stream = (RENDUTIL_IMGFORMAT_JPEG, soi_stream)
   \<and> position (snd (render_detect_image example_externals soi_stream)) = 0"
proof -
  have checks: "png_verify_header example_externals soi_stream = (False, soi_stream)"
      "jpeg_create_decompress example_externals = Inr ()"
      "jpeg_read_header example_externals () = Init_source (Fill_input_buffer (\<lambda>s. Return ()))"
    by (simp_all add: example_externals_def)
  have seeks: "stream_seek_set soi_stream 0 = soi_stream"
      "stream_seek_set (soi_stream\<lparr>position := 2\<rparr>) 0 = soi_stream"
    by (simp_all add: stream_seek_set_def soi_stream_def)
  have s: "source None fresh soi_stream = (source None fresh soi_stream)\<lparr>infile := soi_stream\<rparr>" for fresh
    by (simp add: source_def)
  have header: "run_libjpeg (Init_source (Fill_input_buffer (\<lambda>s. Return ())))
          \<lparr>src = source None (fresh_source example_externals) soi_stream, emitted = []\<rparr>
        = (Inr (), \<lparr>src = (source None (fresh_source example_externals) soi_stream)
                   \<lparr>infile := soi_stream\<lparr>position := 2\<rparr>,
                     buffer := [0xFF, 0xD8] @ drop 2 (buffer (source None (fresh_source example_externals) soi_stream)),
                     next_input_byte := Some 0, bytes_in_buffer := 2, start_of_file := False\<rparr>,
                emitted = []\<rparr>)"
    by (subst s) (rule header_read_soi)
  show ?thesis
    using render_detect_image_probes [of example_externals soi_stream]
    by (simp add: checks seeks header Let_def del: run_libjpeg.simps(4,5))
qed

text \<open>
  With the decoder that asks for input first: a stream of two bytes is tagged JPEG and is
  back at position 0 although the probe has read both bytes, the empty stream is tagged
  \<open>UNKNOWN\<close> because the first refill fails, and a PNG header that verifies wins over
  the JPEG probe.
\<close>

lemma jpeg_probe_reads_header:
  "jpeg_probe example_externals soi_stream = (True, soi_stream\<lparr>position := 2\<rparr>)"
  "jpeg_probe example_externals empty_stream = (False, empty_stream)"
proof -
  have s: "source None fresh soi_stream = (source None fresh soi_stream)\<lparr>infile := soi_stream\<rparr>" for fresh
    by (simp add: source_def)
  have "run_libjpeg (Init_source (Fill_input_buffer (\<lambda>s. Return ())))
          \<lparr>src = source None (fresh_source example_externals) soi_stream, emitted = []\<rparr>
        = (Inr (), \<lparr>src = (source None (fresh_source example_externals) soi_stream)
                   \<lparr>infile := soi_stream\<lparr>position := 2\<rparr>,
                     buffer := [0xFF, 0xD8] @ drop 2 (buffer (source None (fresh_source example_externals) soi_stream)),
                     next_input_byte := Some 0, bytes_in_buffer := 2, start_of_file := False\<rparr>,
                emitted = []\<rparr>)"
    by (subst s) (rule header_read_soi)
  then show "jpeg_probe example_externals soi_stream = (True, soi_stream\<lparr>position := 2\<rparr>)"
    by (simp add: jpeg_probe_def example_externals_def del: run_libjpeg.simps(4,5))
  define c where "c = do_init \<lparr>src = source None (fresh_source example_externals) empty_stream, emitted = []\<rparr>"
  have "do_fill c = (Inl JERR_INPUT_EMPTY, c)"
    by (rule do_fill_first_empty) (simp_all add: c_def do_init_def source_def example_stream_empty)
  then show "jpeg_probe example_externals empty_stream = (False, empty_stream)"
    by (simp add: jpeg_probe_def example_externals_def c_def do_init_def source_def)
qed

lemma render_detect_image_examples:
  "render_detect_image example_externals soi_stream = (RENDUTIL_IMGFORMAT_JPEG, soi_stream)"
  "render_detect_image example_externals empty_stream = (RENDUTIL_IMGFORMAT_UNKNOWN, empty_stream)"
  "render_detect_image (example_externals\<lparr>png_verify_header := \<lambda>f. (True, f\<lparr>position := 8\<rparr>)\<rparr>) soi_stream
     = (RENDUTIL_IMGFORMAT_PNG, soi_stream)"
proof -
  have checks: "png_verify_header example_externals f = (False, f)"
      "msdib_verify_header example_externals f = (False, f)" for f
    by (simp_all add: example_externals_def)
  have seeks: "stream_seek_set soi_stream 0 = soi_stream"
      "stream_seek_set (soi_stream\<lparr>position := p\<rparr>) 0 = soi_stream"
      "stream_seek_set empty_stream 0 = empty_stream" for p
    by (simp_all add: stream_seek_set_def soi_stream_def empty_stream_def)
  show "render_detect_image example_externals soi_stream = (RENDUTIL_IMGFORMAT_JPEG, soi_stream)"
    by (simp add: render_detect_image_def checks seeks jpeg_probe_reads_header)
  show "render_detect_image example_externals empty_stream = (RENDUTIL_IMGFORMAT_UNKNOWN, empty_stream)"
    by (simp add: render_detect_image_def checks seeks jpeg_probe_reads_header)
  show "render_detect_image (example_externals\<lparr>png_verify_header := \<lambda>f. (True, f\<lparr>position := 8\<rparr>)\<rparr>) soi_stream
     = (RENDUTIL_IMGFORMAT_PNG, soi_stream)"
    by (simp add: render_detect_image_def seeks)
qed

end
